theory Spec2Isabelle
  imports Main "HOL-Library.Signed_Division"
begin

section \<open>Remote project synchronization of the codewind installer\<close>

text \<open>
  The development embeds \<^verbatim>\<open>src/actions/project.go\<close>: the walk callback of
  \<^verbatim>\<open>syncFiles\<close>, \<^verbatim>\<open>BindProject\<close>, \<^verbatim>\<open>completeRemotebind\<close>,
  \<^verbatim>\<open>SyncProject\<close> and \<^verbatim>\<open>completeUpload\<close>.  A Go \<^verbatim>\<open>string\<close> and a
  \<^verbatim>\<open>[]byte\<close> are byte sequences and are both modelled as \<^typ>\<open>string\<close> (a list of
  8-bit characters).  An \<^verbatim>\<open>int64\<close> is modelled as \<^typ>\<open>int\<close>: the only arithmetic
  of the code is a division by one million and a comparison, neither of which can
  overflow.  Go's \<^verbatim>\<open>/\<close> truncates towards zero and is written \<open>sdiv\<close>.
\<close>

subsection \<open>Library: UTF-8 decoding and JSON string encoding\<close>

text \<open>
  \<^verbatim>\<open>utf8.DecodeRuneInString\<close> of the Go library: the first rune of a string and its
  width in bytes; \<open>(RuneError, 1)\<close> marks a byte that starts no valid encoding.
\<close>

definition RuneError :: nat where
  "RuneError = 0xFFFD"

definition acceptRange :: "nat \<Rightarrow> nat \<times> nat" where
  "acceptRange s0 =
     (if s0 = 0xE0 then (0xA0, 0xBF)
      else if s0 = 0xED then (0x80, 0x9F)
      else if s0 = 0xF0 then (0x90, 0xBF)
      else if s0 = 0xF4 then (0x80, 0x8F)
      else (0x80, 0xBF))"

definition DecodeRuneInString :: "string \<Rightarrow> nat \<times> nat" where
  "DecodeRuneInString s =
     (case s of
        [] \<Rightarrow> (RuneError, 0)
      | c0 # _ \<Rightarrow>
          let s0 = (of_char c0 :: nat) in
          if s0 < 0x80 then (s0, 1)
          else if s0 < 0xC2 \<or> 0xF5 \<le> s0 then (RuneError, 1)
          else
            let sz = (if s0 < 0xE0 then 2 else if s0 < 0xF0 then 3 else (4::nat));
                lo = fst (acceptRange s0);
                hi = snd (acceptRange s0)
            in
            if length s < sz then (RuneError, 1)
            else
              let s1 = (of_char (s ! 1) :: nat) in
              if s1 < lo \<or> hi < s1 then (RuneError, 1)
              else if sz \<le> 2 then ((s0 mod 32) * 64 + s1 mod 64, 2)
              else
                let s2 = (of_char (s ! 2) :: nat) in
                if s2 < 0x80 \<or> 0xBF < s2 then (RuneError, 1)
                else if sz \<le> 3 then ((s0 mod 16) * 4096 + (s1 mod 64) * 64 + s2 mod 64, 3)
                else
                  let s3 = (of_char (s ! 3) :: nat) in
                  if s3 < 0x80 \<or> 0xBF < s3 then (RuneError, 1)
                  else ((s0 mod 8) * 262144 + (s1 mod 64) * 4096 + (s2 mod 64) * 64
                          + s3 mod 64, 4))"

text \<open>
  The string encoder of \<^verbatim>\<open>encoding/json\<close> as \<^verbatim>\<open>json.Marshal\<close> runs it (HTML
  escaping on), in the version of the library contemporary with the source: an
  ASCII byte is copied unless it is a control character, a quote, a backslash or one
  of \<^verbatim>\<open><\<close>, \<^verbatim>\<open>>\<close>, \<^verbatim>\<open>&\<close>; a byte that starts no valid UTF-8 encoding is replaced
  by a backslash and the five characters \<^verbatim>\<open>ufffd\<close>; U+2028 and U+2029 are escaped; any other rune
  is copied.
\<close>

definition hex :: "nat \<Rightarrow> char" where
  "hex n = ''0123456789abcdef'' ! n"

definition htmlSafeSet :: "nat \<Rightarrow> bool" where
  "htmlSafeSet b \<longleftrightarrow>
     0x20 \<le> b \<and> b < 0x80 \<and> b \<noteq> 0x22 \<and> b \<noteq> 0x5C \<and> b \<noteq> 0x3C \<and> b \<noteq> 0x3E \<and> b \<noteq> 0x26"

definition escapeByte :: "nat \<Rightarrow> string" where
  "escapeByte b =
     (if b = 0x5C \<or> b = 0x22 then [CHR 0x5C, char_of b]
      else if b = 0x0A then [CHR 0x5C, CHR ''n'']
      else if b = 0x0D then [CHR 0x5C, CHR ''r'']
      else if b = 0x09 then [CHR 0x5C, CHR ''t'']
      else [CHR 0x5C, CHR ''u'', CHR ''0'', CHR ''0'', hex (b div 16), hex (b mod 16)])"

fun encodeString :: "string \<Rightarrow> string" where
  "encodeString [] = []"
| "encodeString (c # cs) =
     (let b = (of_char c :: nat) in
      if b < 0x80 then
        (if htmlSafeSet b then [c] else escapeByte b) @ encodeString cs
      else
        let r = fst (DecodeRuneInString (c # cs));
            size = snd (DecodeRuneInString (c # cs))
        in
        if r = RuneError \<and> size = 1 then
          [CHR 0x5C, CHR ''u'', CHR ''f'', CHR ''f'', CHR ''f'', CHR ''d''] @ encodeString cs
        else if r = 0x2028 \<or> r = 0x2029 then
          [CHR 0x5C, CHR ''u'', CHR ''2'', CHR ''0'', CHR ''2'', hex (r mod 16)]
            @ encodeString (drop (size - 1) cs)
        else c # take (size - 1) cs @ encodeString (drop (size - 1) cs))"

text \<open>
  \<^verbatim>\<open>json.Marshal(string(fileContent))\<close>: the quoted literal and the error, which
  for a string argument is always \<^verbatim>\<open>nil\<close> (\<open>False\<close> here).
\<close>

definition json_Marshal :: "string \<Rightarrow> string \<times> bool" where
  "json_Marshal s = ([CHR 0x22] @ encodeString s @ [CHR 0x22], False)"

subsection \<open>Library: zlib framing and base64\<close>

text \<open>
  \<^verbatim>\<open>zlib.NewWriter\<close>, one \<^verbatim>\<open>Write\<close> and \<^verbatim>\<open>Close\<close>: the two header bytes of the
  default level, the deflate stream, and the Adler-32 checksum of the uncompressed
  data, big-endian.  The deflate compressor itself (\<^verbatim>\<open>compress/flate\<close>) is a
  parameter.
\<close>

fun adler :: "nat \<times> nat \<Rightarrow> string \<Rightarrow> nat \<times> nat" where
  "adler (a, b) [] = (a, b)"
| "adler (a, b) (c # cs) =
     (let a' = (a + of_char c) mod 65521 in adler (a', (b + a') mod 65521) cs)"

definition adler32 :: "string \<Rightarrow> string" where
  "adler32 d =
     (let a = fst (adler (1, 0) d); b = snd (adler (1, 0) d) in
      [char_of (b div 256), char_of (b mod 256), char_of (a div 256), char_of (a mod 256)])"

definition zlibCompress :: "(string \<Rightarrow> string) \<Rightarrow> string \<Rightarrow> string" where
  "zlibCompress deflate d = [CHR 0x78, CHR 0x9C] @ deflate d @ adler32 d"

text \<open>\<^verbatim>\<open>base64.StdEncoding.EncodeToString\<close>: the standard alphabet, padded.\<close>

definition encodeStd :: string where
  "encodeStd = ''ABCDEFGHIJKLMNOPQRSTUVWXYZabcdefghijklmnopqrstuvwxyz0123456789+/''"

definition b64 :: "nat \<Rightarrow> char" where
  "b64 n = encodeStd ! n"

fun EncodeToString :: "string \<Rightarrow> string" where
  "EncodeToString [] = []"
| "EncodeToString [x] =
     (let a = (of_char x :: nat) in
      [b64 (a div 4), b64 ((a mod 4) * 16), CHR ''='', CHR ''=''])"
| "EncodeToString [x, y] =
     (let a = (of_char x :: nat); b = (of_char y :: nat) in
      [b64 (a div 4), b64 ((a mod 4) * 16 + b div 16), b64 ((b mod 16) * 4), CHR ''=''])"
| "EncodeToString (x # y # z # r) =
     (let a = (of_char x :: nat); b = (of_char y :: nat); c = (of_char z :: nat) in
      [b64 (a div 4), b64 ((a mod 4) * 16 + b div 16), b64 ((b mod 16) * 4 + c div 64),
       b64 (c mod 64)] @ EncodeToString r)"

text \<open>
  The content pipeline of \<^verbatim>\<open>syncFiles\<close> (lines 297 to 310), from the JSON literal
  on: zlib, then base64.
\<close>

definition encodeContent :: "(string \<Rightarrow> string) \<Rightarrow> string \<Rightarrow> string" where
  "encodeContent deflate jsonContent = EncodeToString (zlibCompress deflate jsonContent)"

definition encode :: "(string \<Rightarrow> string) \<Rightarrow> string \<Rightarrow> string" where
  "encode deflate fileContent = encodeContent deflate (fst (json_Marshal fileContent))"

subsection \<open>Data of \<^verbatim>\<open>project.go\<close>\<close>

record BindRequest =
  Language :: string
  ProjectType :: string
  Name :: string
  Path :: string

record BindEndRequest =
  ProjectID :: string

record CompleteRequest =
  FileList :: "string list"
  ModifiedList :: "string list"
  TimeStamp :: int

record FileUploadMsg =
  IsDirectory :: bool
  RelativePath :: string
  Message :: string

subsection \<open>The world outside: file system and HTTP\<close>

text \<open>
  What \<^verbatim>\<open>os.FileInfo\<close> gives the callback: \<^verbatim>\<open>IsDir()\<close> and
  \<^verbatim>\<open>ModTime().UnixNano()\<close>.  \<^verbatim>\<open>ioutil.ReadFile\<close> returns bytes and an error;
  with an error the bytes are those read before it (none when the file cannot be
  opened).
\<close>

record FileInfo =
  IsDir :: bool
  ModTimeNano :: int

datatype read_result = ReadOk string | ReadErr string

fun fileBytes :: "read_result \<Rightarrow> string" where
  "fileBytes (ReadOk d) = d"
| "fileBytes (ReadErr d) = d"

fun readFailed :: "read_result \<Rightarrow> bool" where
  "readFailed (ReadOk d) = False"
| "readFailed (ReadErr d) = True"

text \<open>
  One invocation of the function that \<^verbatim>\<open>filepath.Walk\<close> calls: the path, the
  \<^verbatim>\<open>FileInfo\<close> (\<open>None\<close> is Go's \<^verbatim>\<open>nil\<close>, passed when \<^verbatim>\<open>Lstat\<close> failed), whether
  the incoming error is set, and what \<^verbatim>\<open>ioutil.ReadFile\<close> of the path returns at
  that moment.
\<close>

record visit =
  vpath :: string
  vinfo :: "FileInfo option"
  verr :: bool
  vread :: read_result

text \<open>
  An HTTP request as the code builds it: method, URL and the value that is
  serialised into the JSON body.
\<close>

datatype payload =
    PBind BindRequest
  | PFile FileUploadMsg
  | PBindEnd BindEndRequest
  | PComplete CompleteRequest

record request =
  httpMethod :: string
  url :: string
  body :: payload

text \<open>
  A response: its status line, the text of its body, and that body as
  \<^verbatim>\<open>json.Unmarshal\<close> into a \<^verbatim>\<open>map[string]interface{}\<close> sees it: not decodable,
  or an object whose members are strings or something else.
\<close>

datatype json_value = JString string | JOther

datatype json_body = Unparsable | Object "string \<Rightarrow> json_value option"

record response =
  Status :: string
  BodyText :: string
  Body :: json_body

text \<open>
  What sending a request yields.  \<open>NoRequest\<close>: \<^verbatim>\<open>http.NewRequest\<close> rejected the
  URL, so nothing was sent.  \<open>Failure\<close>: the client returned an error and a
  \<^verbatim>\<open>nil\<close> response.  \<open>FailureWithResponse\<close>: an error together with a response
  (Go documents this for a failed redirect policy).  \<open>Response\<close>: a response of
  any status and no error.
\<close>

datatype do_result =
    NoRequest
  | Failure
  | FailureWithResponse response
  | Response response

text \<open>
  The environment of a run: the API route prefix of \<^verbatim>\<open>config.PFEApiRoute()\<close>, the
  deflate compressor, and the network, which answers the \<open>n\<close>-th request of the
  run.
\<close>

record env =
  PFEApiRoute :: string
  deflate :: "string \<Rightarrow> string"
  net :: "nat \<Rightarrow> request \<Rightarrow> do_result"

datatype panic = NilPointer | SliceBounds | PanicErr | TypeAssertion

text \<open>
  The observable effects: the requests handed to the HTTP client, each with what
  came back, oldest first, and the lines printed.
\<close>

record world =
  calls :: "(request \<times> do_result) list"
  out :: "string list"

record walk_state = world +
  fileList :: "string list"
  modifiedList :: "string list"

subsection \<open>Library: \<^verbatim>\<open>filepath.Clean\<close>, \<^verbatim>\<open>filepath.Join\<close> and \<^verbatim>\<open>filepath.Walk\<close>\<close>

text \<open>
  \<^verbatim>\<open>filepath.Clean\<close> on a system whose separator is the slash, element by
  element: empty elements and \<^verbatim>\<open>.\<close> are dropped, \<^verbatim>\<open>..\<close> removes the element
  before it when there is one, is kept at the front of a relative path and is dropped
  at the root.
\<close>

fun splitSep :: "string \<Rightarrow> string list" where
  "splitSep [] = [[]]"
| "splitSep (c # cs) =
     (if c = CHR ''/'' then [] # splitSep cs
      else (case splitSep cs of [] \<Rightarrow> [[c]] | e # es \<Rightarrow> (c # e) # es))"

fun joinSep :: "string list \<Rightarrow> string" where
  "joinSep [] = []"
| "joinSep [e] = e"
| "joinSep (e # es) = e @ CHR ''/'' # joinSep es"

fun cleanElems :: "bool \<Rightarrow> string list \<Rightarrow> string list \<Rightarrow> string list" where
  "cleanElems rooted outp [] = outp"
| "cleanElems rooted outp (e # es) =
     (if e = [] \<or> e = ''.'' then cleanElems rooted outp es
      else if e = ''..'' then
        (if outp \<noteq> [] \<and> last outp \<noteq> ''..'' then cleanElems rooted (butlast outp) es
         else if \<not> rooted then cleanElems rooted (outp @ [''..'']) es
         else cleanElems rooted outp es)
      else cleanElems rooted (outp @ [e]) es)"

definition Clean :: "string \<Rightarrow> string" where
  "Clean path =
     (if path = [] then ''.''
      else
        let rooted = (hd path = CHR ''/'');
            joined = joinSep (cleanElems rooted [] (splitSep path))
        in if rooted then CHR ''/'' # joined
           else if joined = [] then ''.'' else joined)"

text \<open>\<^verbatim>\<open>filepath.Join\<close> of two elements.\<close>

definition Join :: "string \<Rightarrow> string \<Rightarrow> string" where
  "Join a b =
     (if a \<noteq> [] then Clean (a @ ''/'' @ b)
      else if b \<noteq> [] then Clean b
      else [])"

text \<open>
  What is found at a path: nothing that \<^verbatim>\<open>Lstat\<close> can describe; something that is
  not a directory (a regular file, a symbolic link, which \<^verbatim>\<open>Lstat\<close> does not
  follow, or a device, pipe or socket), with its modification time and what reading
  it gives; or a directory with its modification time and its entries in the order
  \<^verbatim>\<open>readDirNames\<close> returns them (\<open>None\<close> when the directory cannot be listed).
\<close>

datatype file_kind = Regular | Symlink | Special

datatype fs_node =
    Missing
  | File file_kind int read_result
  | Dir int "(string \<times> fs_node) list option"

text \<open>
  \<^verbatim>\<open>filepath.Walk\<close> with a function that always returns \<^verbatim>\<open>nil\<close>: the sequence of
  its invocations.  A directory is visited before its entries, an entry under the
  name \<^verbatim>\<open>Join(path, name)\<close>.
\<close>

fun walk :: "string \<Rightarrow> fs_node \<Rightarrow> visit list"
  and walkEntries :: "string \<Rightarrow> (string \<times> fs_node) list \<Rightarrow> visit list" where
  "walk path Missing =
     [\<lparr>vpath = path, vinfo = None, verr = True, vread = ReadErr []\<rparr>]"
| "walk path (File k t r) =
     [\<lparr>vpath = path, vinfo = Some \<lparr>IsDir = False, ModTimeNano = t\<rparr>, verr = False,
       vread = r\<rparr>]"
| "walk path (Dir t None) =
     [\<lparr>vpath = path, vinfo = Some \<lparr>IsDir = True, ModTimeNano = t\<rparr>, verr = True,
       vread = ReadErr []\<rparr>]"
| "walk path (Dir t (Some entries)) =
     \<lparr>vpath = path, vinfo = Some \<lparr>IsDir = True, ModTimeNano = t\<rparr>, verr = False,
      vread = ReadErr []\<rparr> # walkEntries path entries"
| "walkEntries path [] = []"
| "walkEntries path ((name, n) # entries) =
     walk (Join path name) n @ walkEntries path entries"

definition Walk :: "string \<Rightarrow> fs_node \<Rightarrow> visit list" where
  "Walk root n = walk root n"

subsection \<open>\<^verbatim>\<open>syncFiles\<close>\<close>

text \<open>
  The callback passed to \<^verbatim>\<open>filepath.Walk\<close> (lines 275 to 328).  It returns
  \<^verbatim>\<open>nil\<close> on every path, so its result here is only whether it panicked.
  Line 296 assigns the error of \<^verbatim>\<open>ReadFile\<close> to \<^verbatim>\<open>err\<close> and line 297 assigns the
  error of \<^verbatim>\<open>json.Marshal\<close> to the same variable: the test of line 299 sees the
  second one.
\<close>

definition millis :: "int \<Rightarrow> int" where
  "millis nanos = nanos sdiv 1000000"

definition walkFn ::
  "env \<Rightarrow> string \<Rightarrow> string \<Rightarrow> int \<Rightarrow> visit \<Rightarrow> walk_state \<Rightarrow> panic option \<times> walk_state" where
  "walkFn E projectPath projectUploadUrl synctime v s =
     (case vinfo v of
        None \<Rightarrow> (Some NilPointer, s)
      | Some info \<Rightarrow>
          if \<not> IsDir info then
            if length (vpath v) < length projectPath + 1 then (Some SliceBounds, s)
            else
              let relativePath = drop (length projectPath + 1) (vpath v);
                  s1 = s\<lparr>fileList := fileList s @ [relativePath]\<rparr>;
                  modifiedmillis = millis (ModTimeNano info);
                  fileUploadBody =
                    \<lparr>IsDirectory = IsDir info, RelativePath = relativePath, Message = []\<rparr>
              in
              if modifiedmillis > synctime then
                let fileContent = fileBytes (vread v);
                    err = readFailed (vread v);
                    jsonContent = fst (json_Marshal fileContent);
                    err = snd (json_Marshal fileContent)
                in
                if err then (None, s1)
                else
                  let s2 = s1\<lparr>modifiedList := modifiedList s1 @ [relativePath]\<rparr>;
                      encoded = encodeContent (deflate E) jsonContent;
                      fileUploadBody = fileUploadBody\<lparr>Message := encoded\<rparr>;
                      req = \<lparr>httpMethod = ''PUT'', url = projectUploadUrl,
                             body = PFile fileUploadBody\<rparr>
                  in
                  (case net E (length (calls s2)) req of
                     NoRequest \<Rightarrow> (Some NilPointer, s2)
                   | Failure \<Rightarrow> (Some NilPointer, s2\<lparr>calls := calls s2 @ [(req, Failure)]\<rparr>)
                   | FailureWithResponse resp \<Rightarrow>
                       (None, s2\<lparr>calls := calls s2 @ [(req, FailureWithResponse resp)],
                          out := out s2 @
                            [''Upload status:'' @ Status resp @ '' for file: '' @ relativePath]\<rparr>)
                   | Response resp \<Rightarrow>
                       (None, s2\<lparr>calls := calls s2 @ [(req, Response resp)],
                          out := out s2 @
                            [''Upload status:'' @ Status resp @ '' for file: '' @ relativePath]\<rparr>))
              else (None, s1)
          else (None, s))"

text \<open>
  \<^verbatim>\<open>filepath.Walk\<close> calls the function once per visit, in order, as long as the
  function returns \<^verbatim>\<open>nil\<close>; a panic ends the process.
\<close>

fun walkLoop ::
  "env \<Rightarrow> string \<Rightarrow> string \<Rightarrow> int \<Rightarrow> visit list \<Rightarrow> walk_state \<Rightarrow> panic option \<times> walk_state" where
  "walkLoop E projectPath u synctime [] s = (None, s)"
| "walkLoop E projectPath u synctime (v # vs) s =
     (case walkFn E projectPath u synctime v s of
        (Some p, s') \<Rightarrow> (Some p, s')
      | (None, s') \<Rightarrow> walkLoop E projectPath u synctime vs s')"

datatype 'a outcome = Returned 'a | Panicked panic

text \<open>
  \<^verbatim>\<open>syncFiles\<close>, with the file system object found at \<^verbatim>\<open>projectPath\<close> as an
  argument.  Since the callback never returns an error, \<^verbatim>\<open>filepath.Walk\<close> returns
  \<^verbatim>\<open>nil\<close> and the branch of line 329 is never taken.
\<close>

definition uploadUrl :: "env \<Rightarrow> string \<Rightarrow> string" where
  "uploadUrl E projectId = PFEApiRoute E @ ''projects/'' @ projectId @ ''/remote-bind/upload''"

definition startState :: "env \<Rightarrow> string \<Rightarrow> world \<Rightarrow> walk_state" where
  "startState E projectId w =
     \<lparr>calls = calls w, out = out w @ [''Uploading to '' @ uploadUrl E projectId],
      fileList = [], modifiedList = []\<rparr>"

definition syncWalk ::
  "env \<Rightarrow> fs_node \<Rightarrow> string \<Rightarrow> string \<Rightarrow> int \<Rightarrow> world \<Rightarrow> panic option \<times> walk_state" where
  "syncWalk E root projectPath projectId synctime w =
     walkLoop E projectPath (uploadUrl E projectId) synctime (Walk projectPath root)
       (startState E projectId w)"

definition syncFiles ::
  "env \<Rightarrow> fs_node \<Rightarrow> string \<Rightarrow> string \<Rightarrow> int \<Rightarrow> world
     \<Rightarrow> (string list \<times> string list) outcome \<times> world" where
  "syncFiles E root projectPath projectId synctime w =
     (case syncWalk E root projectPath projectId synctime w of
        (Some p, s) \<Rightarrow> (Panicked p, \<lparr>calls = calls s, out = out s\<rparr>)
      | (None, s) \<Rightarrow>
          (Returned (fileList s, modifiedList s), \<lparr>calls = calls s, out = out s\<rparr>))"

subsection \<open>\<^verbatim>\<open>BindProject\<close> and \<^verbatim>\<open>SyncProject\<close>\<close>

text \<open>
  \<^verbatim>\<open>completeRemotebind\<close> and \<^verbatim>\<open>completeUpload\<close> print the status of the response
  before they test the error, so an error with a \<^verbatim>\<open>nil\<close> response panics in the
  print and an error with a response panics in \<^verbatim>\<open>panic(err)\<close>.
\<close>

definition finish :: "request \<Rightarrow> env \<Rightarrow> world \<Rightarrow> unit outcome \<times> world" where
  "finish req E w =
     (case net E (length (calls w)) req of
        NoRequest \<Rightarrow> (Panicked NilPointer, w)
      | Failure \<Rightarrow> (Panicked NilPointer, w\<lparr>calls := calls w @ [(req, Failure)]\<rparr>)
      | FailureWithResponse resp \<Rightarrow>
          (Panicked PanicErr,
           w\<lparr>calls := calls w @ [(req, FailureWithResponse resp)],
             out := out w @ [''Upload end status:'' @ Status resp]\<rparr>)
      | Response resp \<Rightarrow>
          (Returned (),
           w\<lparr>calls := calls w @ [(req, Response resp)],
             out := out w @ [''Upload end status:'' @ Status resp]\<rparr>))"

definition bindEndRequest :: "env \<Rightarrow> string \<Rightarrow> request" where
  "bindEndRequest E projectId =
     \<lparr>httpMethod = ''POST'', url = PFEApiRoute E @ ''projects/'' @ projectId @ ''/remote-bind/end'',
      body = PBindEnd \<lparr>ProjectID = projectId\<rparr>\<rparr>"

definition completeRemotebind :: "env \<Rightarrow> string \<Rightarrow> world \<Rightarrow> unit outcome \<times> world" where
  "completeRemotebind E projectId w = finish (bindEndRequest E projectId) E w"

definition completeRequest :: "env \<Rightarrow> string \<Rightarrow> string list \<Rightarrow> string list \<Rightarrow> int \<Rightarrow> request" where
  "completeRequest E projectId files modfiles timestamp =
     \<lparr>httpMethod = ''POST'', url = PFEApiRoute E @ ''projects/'' @ projectId @ ''/upload/end'',
      body = PComplete \<lparr>FileList = files, ModifiedList = modfiles, TimeStamp = timestamp\<rparr>\<rparr>"

definition completeUpload ::
  "env \<Rightarrow> string \<Rightarrow> string list \<Rightarrow> string list \<Rightarrow> int \<Rightarrow> world \<Rightarrow> unit outcome \<times> world" where
  "completeUpload E projectId files modfiles timestamp w =
     finish (completeRequest E projectId files modfiles timestamp) E w"

text \<open>
  \<^verbatim>\<open>BindProject\<close>.  Its arguments are the four flag values after
  \<^verbatim>\<open>strings.TrimSpace\<close>.  An error of the start request makes it return; a response
  is printed and decoded whatever its status.
\<close>

definition bindRequest :: "env \<Rightarrow> string \<Rightarrow> string \<Rightarrow> string \<Rightarrow> string \<Rightarrow> request" where
  "bindRequest E projectPath name language buildType =
     \<lparr>httpMethod = ''POST'', url = PFEApiRoute E @ ''projects/remote-bind/start'',
      body = PBind \<lparr>Language = language, ProjectType = buildType, Name = name,
                    Path = projectPath\<rparr>\<rparr>"

definition BindProject ::
  "env \<Rightarrow> fs_node \<Rightarrow> string \<Rightarrow> string \<Rightarrow> string \<Rightarrow> string \<Rightarrow> world \<Rightarrow> unit outcome \<times> world" where
  "BindProject E root projectPath name language buildType w =
     (let req = bindRequest E projectPath name language buildType in
      case net E (length (calls w)) req of
        NoRequest \<Rightarrow> (Panicked NilPointer, w)
      | Failure \<Rightarrow> (Returned (), w\<lparr>calls := calls w @ [(req, Failure)]\<rparr>)
      | FailureWithResponse resp \<Rightarrow>
          (Returned (), w\<lparr>calls := calls w @ [(req, FailureWithResponse resp)]\<rparr>)
      | Response resp \<Rightarrow>
          let w1 = w\<lparr>calls := calls w @ [(req, Response resp)],
                     out := out w @ [BodyText resp]\<rparr> in
          (case Body resp of
             Unparsable \<Rightarrow> (Panicked PanicErr, w1)
           | Object projectInfo \<Rightarrow>
               (case projectInfo ''projectID'' of
                  Some (JString projectID) \<Rightarrow>
                    let w2 = w1\<lparr>out := out w1 @ [''Returned projectid '' @ projectID]\<rparr> in
                    (case syncFiles E root projectPath projectID 0 w2 of
                       (Panicked p, w3) \<Rightarrow> (Panicked p, w3)
                     | (Returned (files, modfiles), w3) \<Rightarrow> completeRemotebind E projectID w3)
                | _ \<Rightarrow> (Panicked TypeAssertion, w1))))"

text \<open>
  \<^verbatim>\<open>SyncProject\<close>, with \<^verbatim>\<open>synctime\<close> the value of the \<^verbatim>\<open>time\<close> flag.
  \<^verbatim>\<open>fmt.Println\<close> of a slice of strings prints them between brackets, separated by
  spaces.
\<close>

fun joinSpace :: "string list \<Rightarrow> string" where
  "joinSpace [] = []"
| "joinSpace [x] = x"
| "joinSpace (x # xs) = x @ CHR '' '' # joinSpace xs"

definition printSlice :: "string list \<Rightarrow> string" where
  "printSlice xs = ''['' @ joinSpace xs @ '']''"

definition SyncProject ::
  "env \<Rightarrow> fs_node \<Rightarrow> string \<Rightarrow> string \<Rightarrow> int \<Rightarrow> world \<Rightarrow> unit outcome \<times> world" where
  "SyncProject E root projectPath projectID synctime w =
     (case syncFiles E root projectPath projectID synctime w of
        (Panicked p, w1) \<Rightarrow> (Panicked p, w1)
      | (Returned (files, modfiles), w1) \<Rightarrow>
          completeUpload E projectID files modfiles synctime
            (w1\<lparr>out := out w1 @ [printSlice files, printSlice modfiles]\<rparr>))"

subsection \<open>Notions used by the properties\<close>

text \<open>
  A visit of something that is not a directory; its modification time in
  milliseconds; its path with the project path and one more character removed; and
  whether the callback takes it for modified.
\<close>

definition isFile :: "visit \<Rightarrow> bool" where
  "isFile v = (case vinfo v of None \<Rightarrow> False | Some info \<Rightarrow> \<not> IsDir info)"

definition modTimeNanos :: "visit \<Rightarrow> int" where
  "modTimeNanos v = (case vinfo v of None \<Rightarrow> 0 | Some info \<Rightarrow> ModTimeNano info)"

definition modifiedAtMillis :: "visit \<Rightarrow> int" where
  "modifiedAtMillis v = millis (modTimeNanos v)"

definition relPath :: "string \<Rightarrow> visit \<Rightarrow> string" where
  "relPath projectPath v = drop (length projectPath + 1) (vpath v)"

definition isModified :: "int \<Rightarrow> visit \<Rightarrow> bool" where
  "isModified synctime v \<longleftrightarrow> isFile v \<and> synctime < modifiedAtMillis v"

text \<open>The upload request that the callback builds for a visit.\<close>

definition uploadOf :: "env \<Rightarrow> string \<Rightarrow> string \<Rightarrow> visit \<Rightarrow> request" where
  "uploadOf E projectPath u v =
     \<lparr>httpMethod = ''PUT'', url = u,
      body = PFile \<lparr>IsDirectory = False, RelativePath = relPath projectPath v,
                    Message = encode (deflate E) (fileBytes (vread v))\<rparr>\<rparr>"

fun hasResponse :: "do_result \<Rightarrow> bool" where
  "hasResponse (Response r) = True"
| "hasResponse (FailureWithResponse r) = True"
| "hasResponse _ = False"

text \<open>The line that the callback prints after an exchange that brought a response.\<close>

fun respStatus :: "do_result \<Rightarrow> string" where
  "respStatus (Response r) = Status r"
| "respStatus (FailureWithResponse r) = Status r"
| "respStatus _ = []"

fun sentPath :: "payload \<Rightarrow> string" where
  "sentPath (PFile m) = RelativePath m"
| "sentPath _ = []"

definition statusLine :: "request \<times> do_result \<Rightarrow> string" where
  "statusLine x =
     ''Upload status:'' @ respStatus (snd x) @ '' for file: '' @ sentPath (body (fst x))"

text \<open>
  The state \<open>s'\<close> that the walk reaches from \<open>s\<close> over the visits \<open>seen\<close>, with the
  exchanges \<open>new\<close>: the lists hold the paths of the files and of the modified files
  seen; the requests are the uploads of the modified files seen, the last one
  missing when its request could not be built; every exchange but the last had a
  response, and the last one too unless the walk ended in a nil dereference; one
  line is printed per exchange that had a response.
\<close>

definition walkedTo ::
  "env \<Rightarrow> string \<Rightarrow> string \<Rightarrow> int \<Rightarrow> walk_state \<Rightarrow> visit list \<Rightarrow> panic option
     \<Rightarrow> (request \<times> do_result) list \<Rightarrow> walk_state \<Rightarrow> bool" where
  "walkedTo E pp u t s seen po new s' \<longleftrightarrow>
     fileList s' = fileList s @ map (relPath pp) (filter isFile seen) \<and>
     modifiedList s' = modifiedList s @ map (relPath pp) (filter (isModified t) seen) \<and>
     calls s' = calls s @ new \<and>
     (map fst new = map (uploadOf E pp u) (filter (isModified t) seen) \<or>
      po \<noteq> None \<and> map fst new = map (uploadOf E pp u) (butlast (filter (isModified t) seen))) \<and>
     list_all (\<lambda>x. hasResponse (snd x)) (butlast new) \<and>
     (po = Some NilPointer \<or> list_all (\<lambda>x. hasResponse (snd x)) new) \<and>
     list_all (\<lambda>x. snd x \<noteq> NoRequest) new \<and>
     out s' = out s @ map statusLine (filter (\<lambda>x. hasResponse (snd x)) new)"

subsection \<open>A concrete environment and concrete trees\<close>

text \<open>
  A deflate compressor that only emits stored blocks, a server that answers every
  request with status 200 and the project identifier \<^verbatim>\<open>p1\<close>, and the tree of the
  change-set example: three files modified 100, 200 and 300 milliseconds after the
  epoch.
\<close>

definition storedBlock :: "bool \<Rightarrow> string \<Rightarrow> string" where
  "storedBlock final d =
     (let n = length d in
      [if final then CHR 0x01 else CHR 0x00,
       char_of (n mod 256), char_of (n div 256),
       char_of (255 - n mod 256), char_of (255 - n div 256)] @ d)"

function storedDeflate :: "string \<Rightarrow> string" where
  "storedDeflate d =
     (if length d \<le> 65535 then storedBlock True d
      else storedBlock False (take 65535 d) @ storedDeflate (drop 65535 d))"
  by pat_completeness auto
termination
  by (relation "measure length") auto

declare storedDeflate.simps [simp del]

definition quoted :: "string \<Rightarrow> string" where
  "quoted s = CHR 0x22 # s @ [CHR 0x22]"

definition okResponse :: response where
  "okResponse =
     \<lparr>Status = ''200 OK'',
      BodyText = ''{'' @ quoted ''projectID'' @ '':'' @ quoted ''p1'' @ ''}'',
      Body = Object [''projectID'' \<mapsto> JString ''p1'']\<rparr>"

definition demoEnv :: env where
  "demoEnv =
     \<lparr>PFEApiRoute = ''http://localhost:9090/api/v1/'', deflate = storedDeflate,
      net = (\<lambda>n r. Response okResponse)\<rparr>"

definition demoTree :: fs_node where
  "demoTree =
     Dir 0 (Some [(''a'', File Regular 100000000 (ReadOk ''one'')),
                  (''b'', Dir 0 (Some [(''c'', File Regular 200000000 (ReadOk ''two'')),
                                       (''d'', File Regular 300000000 (ReadOk ''three''))]))])"

definition emptyWorld :: world where
  "emptyWorld = \<lparr>calls = [], out = []\<rparr>"

definition uploadsOf :: "env \<Rightarrow> string \<Rightarrow> string \<Rightarrow> int \<Rightarrow> visit list \<Rightarrow> request list" where
  "uploadsOf E pp pid t vs = map (uploadOf E pp (uploadUrl E pid)) (filter (isModified t) vs)"

text \<open>A project whose only file was last modified at the epoch.\<close>

definition epochTree :: fs_node where
  "epochTree = Dir 0 (Some [(''old.txt'', File Regular 0 (ReadOk ''data''))])"

text \<open>
  Servers that answer the second request of a run (the first upload of a bind) with
  status 500, with an error that comes with a response, or with an error and no
  response; a tree with a file that cannot be read; the tree of the end-to-end
  scenario; a visit that the callback survives; and a short form of an exchange.
\<close>

definition serverError :: response where
  "serverError = \<lparr>Status = ''500 Internal Server Error'', BodyText = [], Body = Unparsable\<rparr>"

definition redirected :: response where
  "redirected = \<lparr>Status = ''307 Temporary Redirect'', BodyText = [], Body = Unparsable\<rparr>"

definition errorStatusEnv :: env where
  "errorStatusEnv =
     demoEnv\<lparr>net := (\<lambda>n r. if n = 1 then Response serverError else Response okResponse)\<rparr>"

definition redirectEnv :: env where
  "redirectEnv =
     demoEnv\<lparr>net := (\<lambda>n r. if n = 1 then FailureWithResponse redirected
                               else Response okResponse)\<rparr>"

definition summary :: "request \<times> do_result \<Rightarrow> string \<times> string \<times> do_result" where
  "summary x = (httpMethod (fst x), sentPath (body (fst x)), snd x)"

definition downEnv :: env where
  "downEnv = demoEnv\<lparr>net := (\<lambda>n r. if n = 1 then Failure else Response okResponse)\<rparr>"


definition visitable :: "string \<Rightarrow> visit \<Rightarrow> bool" where
  "visitable pp v \<longleftrightarrow> vinfo v \<noteq> None \<and> (\<not> isFile v \<or> length pp + 1 \<le> length (vpath v))"

definition mainTree :: fs_node where
  "mainTree = Dir 0 (Some [(''main.txt'', File Regular 500000000 (ReadOk ''hello''))])"

text \<open>
  The records that the walker is to produce, in the words of its contract: the
  files of a tree that are reachable by recursive descent, each by its path
  relative to the root, directories being traversed but not listed.  The argument
  \<open>P\<close> says which kinds of non-directories count as files.
\<close>

fun reachableFiles :: "(file_kind \<Rightarrow> bool) \<Rightarrow> fs_node \<Rightarrow> string list"
  and reachableEntries :: "(file_kind \<Rightarrow> bool) \<Rightarrow> (string \<times> fs_node) list \<Rightarrow> string list" where
  "reachableFiles P Missing = []"
| "reachableFiles P (File k t r) = (if P k then [[]] else [])"
| "reachableFiles P (Dir t None) = []"
| "reachableFiles P (Dir t (Some entries)) = reachableEntries P entries"
| "reachableEntries P [] = []"
| "reachableEntries P ((name, n) # entries) =
     map (\<lambda>p. if p = [] then name else name @ ''/'' @ p) (reachableFiles P n) @ reachableEntries P entries"

text \<open>
  The names that a directory listing can hold, the trees all of whose names are
  such, and the project paths that \<^verbatim>\<open>filepath.Clean\<close> leaves unchanged, the
  current directory and the root directory apart.
\<close>

definition validName :: "string \<Rightarrow> bool" where
  "validName name \<longleftrightarrow> name \<noteq> [] \<and> CHR ''/'' \<notin> set name \<and> name \<noteq> ''.'' \<and> name \<noteq> ''..''"

fun validNames :: "fs_node \<Rightarrow> bool"
  and validEntries :: "(string \<times> fs_node) list \<Rightarrow> bool" where
  "validNames Missing = True"
| "validNames (File k t r) = True"
| "validNames (Dir t None) = True"
| "validNames (Dir t (Some entries)) = validEntries entries"
| "validEntries [] = True"
| "validEntries ((name, n) # entries) = (validName name \<and> validNames n \<and> validEntries entries)"

definition cleanRoot :: "string \<Rightarrow> bool" where
  "cleanRoot p \<longleftrightarrow> Clean p = p \<and> p \<noteq> ''.'' \<and> p \<noteq> ''/''"

text \<open>The path of an entry under a root, from its relative path.\<close>

definition underRoot :: "string \<Rightarrow> string \<Rightarrow> string" where
  "underRoot p rel = (if rel = [] then p else p @ ''/'' @ rel)"

text \<open>
  A tree in which \<^verbatim>\<open>latest\<close> is a symbolic link to the directory \<^verbatim>\<open>src\<close>:
  \<^verbatim>\<open>Lstat\<close> reports a link, not a directory, and \<^verbatim>\<open>ReadFile\<close> fails on it.
\<close>

definition linkTree :: fs_node where
  "linkTree =
     Dir 0 (Some [(''README'', File Regular 100000000 (ReadOk ''one'')),
                  (''latest'', File Symlink 200000000 (ReadErr [])),
                  (''src'', Dir 0 (Some [(''main.go'', File Regular 300000000 (ReadOk ''three''))]))])"


definition errorWithProject :: response where
  "errorWithProject = okResponse\<lparr>Status := ''500 Internal Server Error''\<rparr>"

definition beginErrorEnv :: env where
  "beginErrorEnv =
     demoEnv\<lparr>net := (\<lambda>n r. if n = 0 then Response errorWithProject else Response okResponse)\<rparr>"

subsection \<open>The receiving side of the content encoding\<close>

text \<open>
  Modelled from the spec: the decoder.  The installer only encodes (lines 297 to 310 of
  \<^verbatim>\<open>project.go\<close>); no source file of the repository decodes an envelope, so
  \<^verbatim>\<open>decode\<close> follows the specification's words: it reverses the three steps in
  the opposite order, and fails (\<^verbatim>\<open>None\<close>) at whichever step rejects its input.
  Each step is the reader that Go's library pairs with the writer the installer calls:
  \<^verbatim>\<open>base64.StdEncoding.DecodeString\<close>, the zlib reader (header check, inflate,
  Adler-32 check) and the unquoting of a JSON string literal of \<^verbatim>\<open>encoding/json\<close>.
  The inflater is a parameter, as the deflater is: it returns the decompressed bytes and
  what follows the compressed stream.
\<close>

definition decodeStd :: "char \<Rightarrow> nat option" where
  "decodeStd c =
     (let n = (of_char c :: nat) in
      if 65 \<le> n \<and> n \<le> 90 then Some (n - 65)
      else if 97 \<le> n \<and> n \<le> 122 then Some (n - 71)
      else if 48 \<le> n \<and> n \<le> 57 then Some (n + 4)
      else if n = 43 then Some 62
      else if n = 47 then Some 63
      else None)"

fun DecodeString :: "string \<Rightarrow> string option" where
  "DecodeString [] = Some []"
| "DecodeString (a # b # c # d # r) =
     (case (decodeStd a, decodeStd b) of
        (Some x, Some y) \<Rightarrow>
          if c = CHR ''='' then
            (if d = CHR ''='' \<and> r = [] then Some [char_of (x * 4 + y div 16)] else None)
          else
            (case decodeStd c of
               None \<Rightarrow> None
             | Some z \<Rightarrow>
                 if d = CHR ''='' then
                   (if r = [] then
                      Some [char_of (x * 4 + y div 16), char_of ((y mod 16) * 16 + z div 4)]
                    else None)
                 else
                   (case decodeStd d of
                      None \<Rightarrow> None
                    | Some u \<Rightarrow>
                        map_option
                          (\<lambda>rest. [char_of (x * 4 + y div 16),
                                    char_of ((y mod 16) * 16 + z div 4),
                                    char_of ((z mod 4) * 64 + u)] @ rest)
                          (DecodeString r)))
      | _ \<Rightarrow> None)"
| "DecodeString _ = None"

definition zlibDecompress :: "(string \<Rightarrow> (string \<times> string) option) \<Rightarrow> string \<Rightarrow> string option" where
  "zlibDecompress inflate s =
     (case s of
        cmf # flg # r \<Rightarrow>
          if (of_char cmf :: nat) mod 16 = 8 \<and> (of_char cmf :: nat) div 16 \<le> 7
             \<and> ((of_char cmf :: nat) * 256 + of_char flg) mod 31 = 0
             \<and> ((of_char flg :: nat) div 32) mod 2 = 0
          then
            (case inflate r of
               None \<Rightarrow> None
             | Some (d, trailer) \<Rightarrow> if trailer = adler32 d then Some d else None)
          else None
      | _ \<Rightarrow> None)"

definition hexVal :: "char \<Rightarrow> nat option" where
  "hexVal c =
     (let n = (of_char c :: nat) in
      if 48 \<le> n \<and> n \<le> 57 then Some (n - 48)
      else if 97 \<le> n \<and> n \<le> 102 then Some (n - 87)
      else if 65 \<le> n \<and> n \<le> 70 then Some (n - 55)
      else None)"

definition getu4 :: "string \<Rightarrow> nat option" where
  "getu4 s =
     (case s of
        bs # u # h1 # h2 # h3 # h4 # _ \<Rightarrow>
          if bs = CHR 0x5C \<and> u = CHR ''u'' then
            (case (hexVal h1, hexVal h2, hexVal h3, hexVal h4) of
               (Some a, Some b, Some c, Some d) \<Rightarrow> Some (a * 4096 + b * 256 + c * 16 + d)
             | _ \<Rightarrow> None)
          else None
      | _ \<Rightarrow> None)"

definition EncodeRune :: "nat \<Rightarrow> string" where
  "EncodeRune r =
     (if r < 0x80 then [char_of r]
      else if r < 0x800 then [char_of (0xC0 + r div 64), char_of (0x80 + r mod 64)]
      else if (0xD800 \<le> r \<and> r \<le> 0xDFFF) \<or> 0x10FFFF < r then [CHR 0xEF, CHR 0xBF, CHR 0xBD]
      else if r < 0x10000 then
        [char_of (0xE0 + r div 4096), char_of (0x80 + (r div 64) mod 64), char_of (0x80 + r mod 64)]
      else
        [char_of (0xF0 + r div 262144), char_of (0x80 + (r div 4096) mod 64),
         char_of (0x80 + (r div 64) mod 64), char_of (0x80 + r mod 64)])"

definition unescape :: "char \<Rightarrow> char option" where
  "unescape e =
     (if e = CHR 0x22 \<or> e = CHR 0x5C \<or> e = CHR ''/'' then Some e
      else if e = CHR ''b'' then Some (CHR 0x08)
      else if e = CHR ''f'' then Some (CHR 0x0C)
      else if e = CHR ''n'' then Some (CHR 0x0A)
      else if e = CHR ''r'' then Some (CHR 0x0D)
      else if e = CHR ''t'' then Some (CHR 0x09)
      else None)"

fun unquoteBody :: "string \<Rightarrow> string option" where
  "unquoteBody [] = None"
| "unquoteBody (c # cs) =
     (if c = CHR 0x22 then (if cs = [] then Some [] else None)
      else if c = CHR 0x5C then
        (case cs of
           [] \<Rightarrow> None
         | e # r \<Rightarrow>
             if e = CHR ''u'' then
               (case getu4 (c # cs) of
                  None \<Rightarrow> None
                | Some rr \<Rightarrow>
                    if 0xD800 \<le> rr \<and> rr < 0xDC00 then
                      (case getu4 (drop 6 (c # cs)) of
                         Some rr1 \<Rightarrow>
                           if 0xDC00 \<le> rr1 \<and> rr1 < 0xE000 then
                             map_option
                               ((@) (EncodeRune ((rr - 0xD800) * 1024 + (rr1 - 0xDC00) + 0x10000)))
                               (unquoteBody (drop 11 cs))
                           else map_option ((@) (EncodeRune RuneError)) (unquoteBody (drop 5 cs))
                       | None \<Rightarrow> map_option ((@) (EncodeRune RuneError)) (unquoteBody (drop 5 cs)))
                    else map_option ((@) (EncodeRune rr)) (unquoteBody (drop 5 cs)))
             else
               (case unescape e of
                  None \<Rightarrow> None
                | Some b \<Rightarrow> map_option ((#) b) (unquoteBody r)))
      else if (of_char c :: nat) < 0x20 then None
      else map_option ((#) c) (unquoteBody cs))"

definition Unquote :: "string \<Rightarrow> string option" where
  "Unquote s = (case s of [] \<Rightarrow> None | q # r \<Rightarrow> if q = CHR 0x22 then unquoteBody r else None)"

definition decode :: "(string \<Rightarrow> (string \<times> string) option) \<Rightarrow> string \<Rightarrow> string option" where
  "decode inflate s =
     (case DecodeString s of
        None \<Rightarrow> None
      | Some z \<Rightarrow>
          (case zlibDecompress inflate z of
             None \<Rightarrow> None
           | Some j \<Rightarrow> Unquote j))"

text \<open>
  \<^verbatim>\<open>utf8.ValidString\<close>, and the bytes that may follow the first byte of a rune.
\<close>

fun ValidString :: "string \<Rightarrow> bool" where
  "ValidString [] = True"
| "ValidString (c # cs) =
     (if (of_char c :: nat) < 0x80 then ValidString cs
      else
        let r = fst (DecodeRuneInString (c # cs));
            size = snd (DecodeRuneInString (c # cs))
        in \<not> (r = RuneError \<and> size = 1) \<and> ValidString (drop (size - 1) cs))"

definition cont :: "char \<Rightarrow> bool" where
  "cont x \<longleftrightarrow> (0x80::nat) \<le> of_char x \<and> (of_char x :: nat) \<le> 0xBF"

text \<open>
  The inflater for the compressor that only emits stored blocks.
\<close>

fun storedInflate :: "string \<Rightarrow> (string \<times> string) option" where
  "storedInflate (h # l0 # l1 # n0 # n1 # r) =
     (let len = (of_char l0 :: nat) + 256 * of_char l1 in
      if (of_char l0 :: nat) + of_char n0 \<noteq> 255 \<or> (of_char l1 :: nat) + of_char n1 \<noteq> 255
         \<or> length r < len
      then None
      else if h = CHR 0x01 then Some (take len r, drop len r)
      else if h = CHR 0x00 then
        (case storedInflate (drop len r) of
           None \<Rightarrow> None
         | Some (d, rest) \<Rightarrow> Some (take len r @ d, rest))
      else None)"
| "storedInflate _ = None"

section \<open>Properties\<close>

subsection \<open>The callback, case by case\<close>

lemma walkFn_nil: "vinfo v = None \<Longrightarrow> walkFn E pp u t v s = (Some NilPointer, s)"
  by (simp add: walkFn_def)

lemma walkFn_dir: "\<not> isFile v \<Longrightarrow> vinfo v \<noteq> None \<Longrightarrow> walkFn E pp u t v s = (None, s)"
  by (auto simp: walkFn_def isFile_def split: option.splits)

lemma walkFn_short:
  "isFile v \<Longrightarrow> length (vpath v) < length pp + 1 \<Longrightarrow> walkFn E pp u t v s = (Some SliceBounds, s)"
  by (auto simp: walkFn_def isFile_def split: option.splits)

lemma walkFn_old:
  "isFile v \<Longrightarrow> length pp + 1 \<le> length (vpath v) \<Longrightarrow> \<not> isModified t v \<Longrightarrow>
   walkFn E pp u t v s = (None, s\<lparr>fileList := fileList s @ [relPath pp v]\<rparr>)"
  by (auto simp: walkFn_def isFile_def isModified_def modifiedAtMillis_def modTimeNanos_def
      relPath_def Let_def split: option.splits)

lemma walkFn_new:
  "isModified t v \<Longrightarrow> length pp + 1 \<le> length (vpath v) \<Longrightarrow>
   walkFn E pp u t v s =
     (let s2 = s\<lparr>fileList := fileList s @ [relPath pp v],
                 modifiedList := modifiedList s @ [relPath pp v]\<rparr>;
          req = uploadOf E pp u v;
          a = net E (length (calls s)) req;
          line = (\<lambda>resp. ''Upload status:'' @ Status resp @ '' for file: '' @ relPath pp v)
      in case a of
           NoRequest \<Rightarrow> (Some NilPointer, s2)
         | Failure \<Rightarrow> (Some NilPointer, s2\<lparr>calls := calls s @ [(req, a)]\<rparr>)
         | FailureWithResponse resp \<Rightarrow>
             (None, s2\<lparr>calls := calls s @ [(req, a)], out := out s @ [line resp]\<rparr>)
         | Response resp \<Rightarrow>
             (None, s2\<lparr>calls := calls s @ [(req, a)], out := out s @ [line resp]\<rparr>))"
  by (auto simp: walkFn_def isFile_def isModified_def modifiedAtMillis_def modTimeNanos_def
      relPath_def Let_def uploadOf_def encode_def json_Marshal_def
      split: option.splits do_result.splits)

lemma sentPath_uploadOf: "sentPath (body (uploadOf E pp u v)) = relPath pp v"
  by (simp add: uploadOf_def)

lemma walkFn_new_response:
  assumes "isModified t v" and "length pp + 1 \<le> length (vpath v)"
    and "hasResponse (net E (length (calls s)) (uploadOf E pp u v))"
  shows "\<exists>s1. walkFn E pp u t v s = (None, s1) \<and>
           fileList s1 = fileList s @ [relPath pp v] \<and>
           modifiedList s1 = modifiedList s @ [relPath pp v] \<and>
           calls s1 = calls s @ [(uploadOf E pp u v, net E (length (calls s)) (uploadOf E pp u v))] \<and>
           out s1 = out s @ [statusLine (uploadOf E pp u v, net E (length (calls s)) (uploadOf E pp u v))]"
  using assms(3) unfolding walkFn_new [OF assms(1,2)]
  by (cases "net E (length (calls s)) (uploadOf E pp u v)")
    (simp_all add: statusLine_def sentPath_uploadOf)

lemma walkFn_cases:
  obtains
    (nil) "vinfo v = None" "walkFn E pp u t v s = (Some NilPointer, s)"
  | (dir) "vinfo v \<noteq> None" "\<not> isFile v" "walkFn E pp u t v s = (None, s)"
  | (short) "isFile v" "length (vpath v) < length pp + 1"
      "walkFn E pp u t v s = (Some SliceBounds, s)"
  | (old) "isFile v" "length pp + 1 \<le> length (vpath v)" "\<not> isModified t v"
      "walkFn E pp u t v s = (None, s\<lparr>fileList := fileList s @ [relPath pp v]\<rparr>)"
  | (new) "isModified t v" "length pp + 1 \<le> length (vpath v)"
  using walkFn_nil walkFn_dir walkFn_short walkFn_old
  by (metis not_less)

subsection \<open>The walk as a whole\<close>

lemma walkedTo_skip:
  "\<not> isFile v \<Longrightarrow> walkedTo E pp u t s seen po new s' \<Longrightarrow> walkedTo E pp u t s (v # seen) po new s'"
  by (simp add: walkedTo_def isModified_def)

lemma walkedTo_old:
  "isFile v \<Longrightarrow> \<not> isModified t v \<Longrightarrow>
   walkedTo E pp u t (s\<lparr>fileList := fileList s @ [relPath pp v]\<rparr>) seen po new s' \<Longrightarrow>
   walkedTo E pp u t s (v # seen) po new s'"
  by (simp add: walkedTo_def)

lemma walkedTo_new:
  assumes "isModified t v" and "hasResponse a"
    and "fileList s1 = fileList s @ [relPath pp v]"
    and "modifiedList s1 = modifiedList s @ [relPath pp v]"
    and "calls s1 = calls s @ [(uploadOf E pp u v, a)]"
    and "out s1 = out s @ [statusLine (uploadOf E pp u v, a)]"
    and "walkedTo E pp u t s1 seen po new s'"
  shows "walkedTo E pp u t s (v # seen) po ((uploadOf E pp u v, a) # new) s'"
proof -
  from assms(1) have f: "isFile v" by (simp add: isModified_def)
  have nr: "a \<noteq> NoRequest" using assms(2) by (cases a) auto
  show ?thesis
  proof (cases "filter (isModified t) seen = []")
    case True
    with assms f nr show ?thesis
      by (cases "new = []") (auto simp: walkedTo_def)
  next
    case False
    with assms f nr show ?thesis
      by (cases "new = []") (auto simp: walkedTo_def)
  qed
qed

lemma walkLoop_run:
  "walkLoop E pp u t vs s = (po, s') \<Longrightarrow>
     \<exists>seen rest new. vs = seen @ rest \<and> (po = None \<longrightarrow> rest = []) \<and>
        walkedTo E pp u t s seen po new s'"
proof (induction vs arbitrary: s)
  case Nil
  then have "walkedTo E pp u t s [] po [] s'" by (simp add: walkedTo_def)
  with Nil show ?case by auto
next
  case (Cons v vs)
  have stop: ?case if "po \<noteq> None" and "walkedTo E pp u t s [] po [] s'"
  proof -
    have "v # vs = [] @ (v # vs)" by simp
    with that show ?thesis by blast
  qed
  have step: ?case if "walkLoop E pp u t vs s1 = (po, s')"
    and "\<And>seen new. walkedTo E pp u t s1 seen po new s'
           \<Longrightarrow> \<exists>new'. walkedTo E pp u t s (v # seen) po new' s'"
    for s1
  proof -
    from Cons.IH [OF that(1)] obtain seen rest new where
      d: "vs = seen @ rest" "po = None \<longrightarrow> rest = []" "walkedTo E pp u t s1 seen po new s'"
      by blast
    from that(2) [OF d(3)] obtain new' where "walkedTo E pp u t s (v # seen) po new' s'" ..
    moreover have "v # vs = (v # seen) @ rest" using d(1) by simp
    ultimately show ?thesis using d(2) by blast
  qed
  show ?case
  proof (cases rule: walkFn_cases [of v E pp u t s])
    case nil
    with Cons.prems have "po = Some NilPointer" "s' = s" by auto
    then show ?thesis by (intro stop) (auto simp: walkedTo_def)
  next
    case dir
    with Cons.prems have "walkLoop E pp u t vs s = (po, s')" by simp
    then show ?thesis using walkedTo_skip [OF dir(2)] by (intro step) blast+
  next
    case short
    with Cons.prems have "po = Some SliceBounds" "s' = s" by auto
    then show ?thesis by (intro stop) (auto simp: walkedTo_def)
  next
    case old
    with Cons.prems
    have "walkLoop E pp u t vs (s\<lparr>fileList := fileList s @ [relPath pp v]\<rparr>) = (po, s')"
      by simp
    then show ?thesis using walkedTo_old [OF old(1) old(3)] by (intro step) blast+
  next
    case new
    let ?req = "uploadOf E pp u v"
    let ?a = "net E (length (calls s)) ?req"
    let ?s2 = "s\<lparr>fileList := fileList s @ [relPath pp v],
                 modifiedList := modifiedList s @ [relPath pp v]\<rparr>"
    have one: "filter (isModified t) [v] = [v]" "filter isFile [v] = [v]"
      using new(1) by (simp_all add: isModified_def)
    show ?thesis
    proof (cases "hasResponse ?a")
      case False
      then consider "?a = NoRequest" | "?a = Failure" by (cases ?a) auto
      then show ?thesis
      proof cases
        case 1
        with new Cons.prems have r: "po = Some NilPointer" "s' = ?s2"
          by (auto simp: walkFn_new)
        have "walkedTo E pp u t s [v] po [] s'"
          unfolding walkedTo_def one using r by simp
        moreover have "v # vs = [v] @ vs" by simp
        ultimately show ?thesis using r(1) by blast
      next
        case 2
        with new Cons.prems have r: "po = Some NilPointer"
          "s' = ?s2\<lparr>calls := calls s @ [(?req, Failure)]\<rparr>"
          by (auto simp: walkFn_new)
        have "walkedTo E pp u t s [v] po [(?req, Failure)] s'"
          unfolding walkedTo_def one using r by simp
        moreover have "v # vs = [v] @ vs" by simp
        ultimately show ?thesis using r(1) by blast
      qed
    next
      case True
      from walkFn_new_response [OF new True]
      obtain s1 where s1: "walkFn E pp u t v s = (None, s1)"
        "fileList s1 = fileList s @ [relPath pp v]"
        "modifiedList s1 = modifiedList s @ [relPath pp v]"
        "calls s1 = calls s @ [(?req, ?a)]"
        "out s1 = out s @ [statusLine (?req, ?a)]"
        by blast
      with Cons.prems have "walkLoop E pp u t vs s1 = (po, s')" by simp
      then show ?thesis
        using walkedTo_new [OF new(1) True s1(2) s1(3) s1(4) s1(5)] by (intro step) blast+
    qed
  qed
qed

lemma walkedTo_uploads:
  assumes "walkedTo E pp u t s seen po new s'" and "x \<in> set new"
  shows "\<exists>v \<in> set seen. isModified t v \<and> fst x = uploadOf E pp u v"
proof -
  let ?xs = "filter (isModified t) seen"
  from assms(1) consider "map fst new = map (uploadOf E pp u) ?xs"
    | "map fst new = map (uploadOf E pp u) (butlast ?xs)"
    unfolding walkedTo_def by blast
  then have "set (map fst new) \<subseteq> uploadOf E pp u ` set ?xs"
  proof cases
    case 1
    then show ?thesis by simp
  next
    case 2
    have "set (butlast ?xs) \<subseteq> set ?xs" by (auto dest: in_set_butlastD)
    then show ?thesis unfolding 2 set_map by (rule image_mono)
  qed
  moreover from assms(2) have "fst x \<in> set (map fst new)" by simp
  ultimately show ?thesis by auto
qed

lemma syncWalk_run:
  assumes "syncWalk E root pp pid t w = (po, s)"
  shows "\<exists>seen rest new. Walk pp root = seen @ rest \<and> (po = None \<longrightarrow> rest = []) \<and>
          walkedTo E pp (uploadUrl E pid) t (startState E pid w) seen po new s"
  using assms unfolding syncWalk_def by (rule walkLoop_run)

lemma syncFiles_Returned:
  "syncFiles E root pp pid t w = (Returned (files, modfiles), w') \<Longrightarrow>
     \<exists>s. syncWalk E root pp pid t w = (None, s) \<and> files = fileList s \<and> modfiles = modifiedList s
        \<and> calls w' = calls s \<and> out w' = out s"
  by (auto simp: syncFiles_def split: prod.splits option.splits)

lemma syncFiles_Panicked:
  "syncFiles E root pp pid t w = (Panicked p, w') \<Longrightarrow>
     \<exists>s. syncWalk E root pp pid t w = (Some p, s) \<and> calls w' = calls s \<and> out w' = out s"
  by (auto simp: syncFiles_def split: prod.splits option.splits)



subsection \<open>Evaluating the concrete runs\<close>

lemmas walk_eval = Walk_def Join_def Clean_def

lemmas visit_eval = isFile_def isModified_def modifiedAtMillis_def modTimeNanos_def millis_def
  relPath_def signed_divide_int_def

lemmas walkFn_eval = walkFn_nil walkFn_dir walkFn_short walkFn_old walkFn_new

lemma demoWalk:
  "Walk ''proj'' demoTree =
    [\<lparr>vpath = ''proj'', vinfo = Some \<lparr>IsDir = True, ModTimeNano = 0\<rparr>, verr = False,
      vread = ReadErr []\<rparr>,
     \<lparr>vpath = ''proj/a'', vinfo = Some \<lparr>IsDir = False, ModTimeNano = 100000000\<rparr>,
      verr = False, vread = ReadOk ''one''\<rparr>,
     \<lparr>vpath = ''proj/b'', vinfo = Some \<lparr>IsDir = True, ModTimeNano = 0\<rparr>, verr = False,
      vread = ReadErr []\<rparr>,
     \<lparr>vpath = ''proj/b/c'', vinfo = Some \<lparr>IsDir = False, ModTimeNano = 200000000\<rparr>,
      verr = False, vread = ReadOk ''two''\<rparr>,
     \<lparr>vpath = ''proj/b/d'', vinfo = Some \<lparr>IsDir = False, ModTimeNano = 300000000\<rparr>,
      verr = False, vread = ReadOk ''three''\<rparr>]"
  by (simp add: demoTree_def walk_eval)

lemma demoSync:
  "syncWalk demoEnv demoTree ''proj'' ''p1'' 200 emptyWorld =
     (None,
      \<lparr>calls = [(uploadOf demoEnv ''proj'' (uploadUrl demoEnv ''p1'')
                    \<lparr>vpath = ''proj/b/d'',
                     vinfo = Some \<lparr>IsDir = False, ModTimeNano = 300000000\<rparr>,
                     verr = False, vread = ReadOk ''three''\<rparr>, Response okResponse)],
       out = [''Uploading to '' @ uploadUrl demoEnv ''p1'',
              ''Upload status:200 OK for file: b/d''],
       fileList = [''a'', ''b/c'', ''b/d''], modifiedList = [''b/d'']\<rparr>)"
  by (simp add: syncWalk_def demoWalk startState_def emptyWorld_def
      walkFn_eval visit_eval Let_def)
    (simp add: demoEnv_def okResponse_def)

lemma isModified_nanos: "isModified t = (\<lambda>v. isFile v \<and> t < modTimeNanos v sdiv 1000000)"
  by (rule ext) (simp add: isModified_def modifiedAtMillis_def millis_def)

lemma millis_nonneg: "0 \<le> n \<Longrightarrow> millis n = n div 1000000"
  by (simp add: millis_def signed_divide_int_def sgn_if)

lemma millis_neg: "n < 0 \<Longrightarrow> millis n = - ((- n) div 1000000)"
  by (simp add: millis_def signed_divide_int_def sgn_if)

lemma finish_cases:
  assumes "finish req E w = (oc, w')"
  obtains
    (norequest) "net E (length (calls w)) req = NoRequest" "oc = Panicked NilPointer" "w' = w"
  | (failure) "net E (length (calls w)) req = Failure" "oc = Panicked NilPointer"
      "calls w' = calls w @ [(req, Failure)]" "out w' = out w"
  | (failresp) r where "net E (length (calls w)) req = FailureWithResponse r"
      "oc = Panicked PanicErr" "calls w' = calls w @ [(req, FailureWithResponse r)]"
      "out w' = out w @ [''Upload end status:'' @ Status r]"
  | (response) r where "net E (length (calls w)) req = Response r"
      "oc = Returned ()" "calls w' = calls w @ [(req, Response r)]"
      "out w' = out w @ [''Upload end status:'' @ Status r]"
  using assms unfolding finish_def
  by (cases "net E (length (calls w)) req") auto

lemma epochWalk:
  "Walk ''proj'' epochTree =
    [\<lparr>vpath = ''proj'', vinfo = Some \<lparr>IsDir = True, ModTimeNano = 0\<rparr>, verr = False,
      vread = ReadErr []\<rparr>,
     \<lparr>vpath = ''proj/old.txt'', vinfo = Some \<lparr>IsDir = False, ModTimeNano = 0\<rparr>,
      verr = False, vread = ReadOk ''data''\<rparr>]"
  by (simp add: epochTree_def walk_eval)

lemma demoNet [simp]: "net demoEnv n r = Response okResponse"
  by (simp add: demoEnv_def)

lemma okBody [simp]: "Body okResponse = Object [''projectID'' \<mapsto> JString ''p1'']"
  by (simp add: okResponse_def)

lemma BindProject_cases:
  assumes "BindProject E root pp n l b w = (oc, w')"
  obtains
    (norequest) "net E (length (calls w)) (bindRequest E pp n l b) = NoRequest"
      "oc = Panicked NilPointer" "w' = w"
  | (failed) a where "net E (length (calls w)) (bindRequest E pp n l b) = a"
      "a = Failure \<or> (\<exists>r. a = FailureWithResponse r)"
      "oc = Returned ()" "calls w' = calls w @ [(bindRequest E pp n l b, a)]"
  | (badbody) r where "net E (length (calls w)) (bindRequest E pp n l b) = Response r"
      "\<forall>info pid. Body r = Object info \<longrightarrow> info ''projectID'' \<noteq> Some (JString pid)"
      "oc = Panicked PanicErr \<or> oc = Panicked TypeAssertion"
      "calls w' = calls w @ [(bindRequest E pp n l b, Response r)]"
  | (walkpanic) r info pid w2 p where
      "net E (length (calls w)) (bindRequest E pp n l b) = Response r"
      "Body r = Object info" "info ''projectID'' = Some (JString pid)"
      "calls w2 = calls w @ [(bindRequest E pp n l b, Response r)]"
      "syncFiles E root pp pid 0 w2 = (Panicked p, w')" "oc = Panicked p"
  | (finished) r info pid w2 files modfiles w3 where
      "net E (length (calls w)) (bindRequest E pp n l b) = Response r"
      "Body r = Object info" "info ''projectID'' = Some (JString pid)"
      "calls w2 = calls w @ [(bindRequest E pp n l b, Response r)]"
      "syncFiles E root pp pid 0 w2 = (Returned (files, modfiles), w3)"
      "completeRemotebind E pid w3 = (oc, w')"
proof (cases "net E (length (calls w)) (bindRequest E pp n l b)")
  case NoRequest
  with assms show ?thesis by (intro norequest) (auto simp: BindProject_def)
next
  case Failure
  with assms show ?thesis by (intro failed [of Failure]) (auto simp: BindProject_def)
next
  case (FailureWithResponse r)
  with assms show ?thesis
    by (intro failed [of "FailureWithResponse r"]) (auto simp: BindProject_def)
next
  case (Response r)
  let ?w1 = "w\<lparr>calls := calls w @ [(bindRequest E pp n l b, Response r)],
                out := out w @ [BodyText r]\<rparr>"
  show ?thesis
  proof (cases "\<exists>info pid. Body r = Object info \<and> info ''projectID'' = Some (JString pid)")
    case False
    with assms Response show ?thesis
      by (intro badbody [of r])
        (auto simp: BindProject_def Let_def split: json_body.splits option.splits json_value.splits)
  next
    case True
    then obtain info pid where i: "Body r = Object info" "info ''projectID'' = Some (JString pid)"
      by blast
    let ?w2 = "?w1\<lparr>out := out ?w1 @ [''Returned projectid '' @ pid]\<rparr>"
    have c2: "calls ?w2 = calls w @ [(bindRequest E pp n l b, Response r)]" by simp
    obtain so w3 where sf: "syncFiles E root pp pid 0 ?w2 = (so, w3)" by (cases "syncFiles E root pp pid 0 ?w2")
    show ?thesis
    proof (cases so)
      case (Panicked p)
      with assms Response i sf have "oc = Panicked p" "w' = w3"
        by (auto simp: BindProject_def Let_def)
      with Response i c2 sf Panicked show ?thesis by (intro walkpanic [of r info pid ?w2 p]) auto
    next
      case (Returned fm)
      obtain files modfiles where fm: "fm = (files, modfiles)" by (cases fm)
      with assms Response i sf Returned have "completeRemotebind E pid w3 = (oc, w')"
        by (auto simp: BindProject_def Let_def)
      with Response i c2 sf Returned fm show ?thesis
        by (intro finished [of r info pid ?w2 files modfiles w3]) auto
    qed
  qed
qed

lemma syncWalk_calls:
  assumes "syncWalk E root pp pid t w = (po, s)"
  obtains seen rest new where "Walk pp root = seen @ rest" "po = None \<longrightarrow> rest = []"
    "calls s = calls w @ new"
    "map fst new = uploadsOf E pp pid t seen \<or>
       po \<noteq> None \<and> map fst new = butlast (uploadsOf E pp pid t seen)"
    "list_all (\<lambda>x. hasResponse (snd x)) (butlast new)"
    "po = Some NilPointer \<or> list_all (\<lambda>x. hasResponse (snd x)) new"
    "fileList s = map (relPath pp) (filter isFile seen)"
    "modifiedList s = map (relPath pp) (filter (isModified t) seen)"
    "out s = out w @ (''Uploading to '' @ uploadUrl E pid)
               # map statusLine (filter (\<lambda>x. hasResponse (snd x)) new)"
proof -
  from syncWalk_run [OF assms] obtain seen rest new where
    "Walk pp root = seen @ rest" "po = None \<longrightarrow> rest = []"
    "walkedTo E pp (uploadUrl E pid) t (startState E pid w) seen po new s"
    by blast
  then show ?thesis
    by (intro that [of seen rest new])
      (auto simp: walkedTo_def startState_def uploadsOf_def map_butlast)
qed


lemma mainWalk:
  "Walk ''proj'' mainTree =
    [\<lparr>vpath = ''proj'', vinfo = Some \<lparr>IsDir = True, ModTimeNano = 0\<rparr>, verr = False,
      vread = ReadErr []\<rparr>,
     \<lparr>vpath = ''proj/main.txt'', vinfo = Some \<lparr>IsDir = False, ModTimeNano = 500000000\<rparr>,
      verr = False, vread = ReadOk ''hello''\<rparr>]"
  by (simp add: mainTree_def walk_eval)


lemma httpMethod_uploadOf: "httpMethod (uploadOf E pp u v) = ''PUT''"
  by (simp add: uploadOf_def)

lemma summary_uploadOf: "summary (uploadOf E pp u v, a) = (''PUT'', relPath pp v, a)"
  by (simp add: summary_def uploadOf_def)

lemma summary_other:
  "summary (bindRequest E pp n l b, a) = (''POST'', [], a)"
  "summary (bindEndRequest E pid, a) = (''POST'', [], a)"
  "summary (completeRequest E pid fs ms t, a) = (''POST'', [], a)"
  by (simp_all add: summary_def bindRequest_def bindEndRequest_def completeRequest_def)

lemma env_nets:
  "net errorStatusEnv n r = (if n = 1 then Response serverError else Response okResponse)"
  "net redirectEnv n r = (if n = 1 then FailureWithResponse redirected else Response okResponse)"
  "net downEnv n r = (if n = 1 then Failure else Response okResponse)"
  by (simp_all add: errorStatusEnv_def redirectEnv_def downEnv_def demoEnv_def)

lemmas run_eval = BindProject_def SyncProject_def completeRemotebind_def completeUpload_def
  finish_def syncFiles_def syncWalk_def startState_def walkFn_eval visit_eval Let_def
  emptyWorld_def env_nets summary_uploadOf summary_other


lemma splitSep_nonempty: "splitSep s \<noteq> []"
  by (induction s) (auto split: list.splits)

lemma splitSep_noslash: "CHR ''/'' \<notin> set s \<Longrightarrow> splitSep s = [s]"
  by (induction s) auto

lemma splitSep_append:
  "CHR ''/'' \<notin> set name \<Longrightarrow> splitSep (p @ CHR ''/'' # name) = splitSep p @ [name]"
proof (induction p)
  case Nil
  then show ?case by (simp add: splitSep_noslash)
next
  case (Cons c p)
  then show ?case
    using splitSep_nonempty [of p] by (cases "splitSep p") (auto)
qed

lemma cleanElems_append:
  "cleanElems r outp (xs @ ys) = cleanElems r (cleanElems r outp xs) ys"
  by (induction xs arbitrary: outp) auto

lemma cleanElems_name: "validName name \<Longrightarrow> cleanElems r outp [name] = outp @ [name]"
  by (simp add: validName_def)

lemma joinSep_snoc: "outp \<noteq> [] \<Longrightarrow> joinSep (outp @ [e]) = joinSep outp @ CHR ''/'' # e"
  by (induction outp rule: joinSep.induct) auto

lemma Join_clean:
  assumes "cleanRoot p" and "validName name"
  shows "Join p name = p @ ''/'' @ name" and "cleanRoot (p @ ''/'' @ name)"
proof -
  from assms(1) have p: "Clean p = p" "p \<noteq> ''.''" "p \<noteq> ''/''" by (simp_all add: cleanRoot_def)
  have ne: "p \<noteq> []" using p(1) by (auto simp: Clean_def)
  define r where "r = (hd p = CHR ''/'')"
  define outp where "outp = cleanElems r [] (splitSep p)"
  have ns: "CHR ''/'' \<notin> set name" using assms(2) by (simp add: validName_def)
  have out': "cleanElems r [] (splitSep (p @ CHR ''/'' # name)) = outp @ [name]"
    unfolding splitSep_append [OF ns] cleanElems_append outp_def
    by (rule cleanElems_name [OF assms(2)])
  have hdp: "hd (p @ CHR ''/'' # name) = hd p" using ne by simp
  have cp: "Clean p = (if r then CHR ''/'' # joinSep outp
                       else if joinSep outp = [] then ''.'' else joinSep outp)"
    unfolding Clean_def Let_def r_def [symmetric] outp_def [symmetric] using ne by simp
  have cn: "Clean (p @ CHR ''/'' # name) =
              (if r then CHR ''/'' # joinSep (outp @ [name])
               else if joinSep (outp @ [name]) = [] then ''.'' else joinSep (outp @ [name]))"
    unfolding Clean_def Let_def hdp r_def [symmetric] out' by simp
  have outne: "outp \<noteq> []"
  proof
    assume "outp = []"
    with cp p have "p = ''/'' \<or> p = ''.''" by (cases r) auto
    with p(2,3) show False by blast
  qed
  have js: "joinSep (outp @ [name]) = joinSep outp @ CHR ''/'' # name"
    by (rule joinSep_snoc [OF outne])
  have c: "Clean (p @ CHR ''/'' # name) = p @ CHR ''/'' # name"
  proof (cases r)
    case True
    with cp p(1) have "CHR ''/'' # joinSep outp = p" by simp
    then have "p @ CHR ''/'' # name = CHR ''/'' # joinSep outp @ CHR ''/'' # name"
      by (metis append_Cons)
    with cn True js show ?thesis by simp
  next
    case False
    with cp p(1,2) have "joinSep outp = p" by (auto split: if_splits)
    with cn False js show ?thesis by simp
  qed
  show "Join p name = p @ ''/'' @ name" using ne c by (simp add: Join_def)
  have "p @ CHR ''/'' # name \<noteq> ''.''" "p @ CHR ''/'' # name \<noteq> ''/''"
    using ne by (cases p; simp)+
  with c show "cleanRoot (p @ ''/'' @ name)" by (simp add: cleanRoot_def)
qed

lemma under_under:
  "name \<noteq> [] \<Longrightarrow> underRoot (p @ ''/'' @ name) q = underRoot p (if q = [] then name else name @ ''/'' @ q)"
  by (simp add: underRoot_def)

lemma walk_files:
  "cleanRoot p \<Longrightarrow> validNames n \<Longrightarrow>
     map vpath (filter isFile (walk p n)) = map (underRoot p) (reachableFiles (\<lambda>k. True) n)"
  "cleanRoot p \<Longrightarrow> validEntries es \<Longrightarrow>
     map vpath (filter isFile (walkEntries p es)) = map (underRoot p) (reachableEntries (\<lambda>k. True) es)"
proof (induction p n and p es rule: walk_walkEntries.induct)
  case (6 path name n entries)
  then have vn: "validName name" and vs: "validNames n" and ve: "validEntries entries" by simp_all
  note j = Join_clean [OF "6.prems"(1) vn]
  have ne: "name \<noteq> []" using vn by (simp add: validName_def)
  have "map vpath (filter isFile (walk (Join path name) n))
          = map (underRoot (path @ ''/'' @ name)) (reachableFiles (\<lambda>k. True) n)"
    using "6.IH"(1) j vs by simp
  also have "\<dots> = map (underRoot path)
                (map (\<lambda>q. if q = [] then name else name @ ''/'' @ q) (reachableFiles (\<lambda>k. True) n))"
    using ne by (simp add: underRoot_def)
  finally show ?case using "6.IH"(2) [OF "6.prems"(1) ve] by simp
qed (simp_all add: isFile_def underRoot_def)


lemma drop_underRoot: "drop (length p + 1) (underRoot p rel) = rel"
  by (simp add: underRoot_def)

lemma relPaths_of_walk:
  assumes "cleanRoot pp" and "validNames root"
  shows "map (relPath pp) (filter isFile (Walk pp root)) = reachableFiles (\<lambda>k. True) root"
proof -
  have "map (relPath pp) (filter isFile (Walk pp root))
          = map (drop (length pp + 1)) (map vpath (filter isFile (walk pp root)))"
    by (simp add: Walk_def relPath_def o_def)
  also have "\<dots> = map (drop (length pp + 1)) (map (underRoot pp) (reachableFiles (\<lambda>k. True) root))"
    by (simp only: walk_files(1) [OF assms])
  also have "\<dots> = reachableFiles (\<lambda>k. True) root"
    by (simp add: o_def drop_underRoot del: One_nat_def)
  finally show ?thesis .
qed

lemma linkWalk:
  "Walk ''proj'' linkTree =
    [\<lparr>vpath = ''proj'', vinfo = Some \<lparr>IsDir = True, ModTimeNano = 0\<rparr>, verr = False,
      vread = ReadErr []\<rparr>,
     \<lparr>vpath = ''proj/README'', vinfo = Some \<lparr>IsDir = False, ModTimeNano = 100000000\<rparr>,
      verr = False, vread = ReadOk ''one''\<rparr>,
     \<lparr>vpath = ''proj/latest'', vinfo = Some \<lparr>IsDir = False, ModTimeNano = 200000000\<rparr>,
      verr = False, vread = ReadErr []\<rparr>,
     \<lparr>vpath = ''proj/src'', vinfo = Some \<lparr>IsDir = True, ModTimeNano = 0\<rparr>, verr = False,
      vread = ReadErr []\<rparr>,
     \<lparr>vpath = ''proj/src/main.go'', vinfo = Some \<lparr>IsDir = False, ModTimeNano = 300000000\<rparr>,
      verr = False, vread = ReadOk ''three''\<rparr>]"
  by (simp add: linkTree_def walk_eval)

lemma cleanRoot_proj: "cleanRoot ''proj''"
  by (simp add: cleanRoot_def Clean_def)

lemma unclean_root_breaks_relative_paths:
  "fst (syncFiles demoEnv demoTree ''proj/'' ''p1'' 0 emptyWorld)
     = Returned ([[], ''/c'', ''/d''], [[], ''/c'', ''/d''])"
  "fst (syncFiles demoEnv demoTree ''./proj'' ''p1'' 0 emptyWorld) = Panicked SliceBounds"
  by (simp_all add: run_eval demoTree_def walk_eval)

subsection \<open>The content encoding and its inverse\<close>

text \<open>
  Base64: decoding undoes encoding, for every byte sequence.
\<close>

lemma decodeStd_table: "list_all (\<lambda>n. decodeStd (b64 n) = Some n \<and> b64 n \<noteq> CHR ''='') [0..<64]"
  by (simp add: upt_conv_Cons b64_def encodeStd_def decodeStd_def)

lemma decodeStd_b64: "n < 64 \<Longrightarrow> decodeStd (b64 n) = Some n"
  using decodeStd_table by (simp add: list_all_iff)

lemma b64_not_pad: "n < 64 \<Longrightarrow> b64 n \<noteq> CHR ''=''"
  using decodeStd_table by (simp add: list_all_iff)

lemma sextets:
  fixes a b c :: nat
  assumes "a < 256" "b < 256" "c < 256"
  shows "a div 4 < 64" "(a mod 4) * 16 + b div 16 < 64" "(b mod 16) * 4 + c div 64 < 64"
    "c mod 64 < 64" "(a mod 4) * 16 < 64" "(b mod 16) * 4 < 64"
  using assms by simp_all

lemma char_of_eqI: "n = (of_char c :: nat) \<Longrightarrow> char_of n = c"
  by simp

lemma regroup:
  fixes x y z :: char
  defines "a \<equiv> (of_char x :: nat)" and "b \<equiv> (of_char y :: nat)" and "c \<equiv> (of_char z :: nat)"
  shows "char_of (a div 4 * 4 + ((a mod 4) * 16 + b div 16) div 16) = x"
    "char_of ((((a mod 4) * 16 + b div 16) mod 16) * 16 + ((b mod 16) * 4 + c div 64) div 4) = y"
    "char_of ((((b mod 16) * 4 + c div 64) mod 4) * 64 + c mod 64) = z"
    "char_of (a div 4 * 4 + ((a mod 4) * 16) div 16) = x"
    "char_of ((((a mod 4) * 16 + b div 16) mod 16) * 16 + ((b mod 16) * 4) div 4) = y"
proof -
  have l: "a < 256" "b < 256" "c < 256" by (simp_all add: a_def b_def c_def)
  have "a div 4 * 4 + ((a mod 4) * 16 + b div 16) div 16 = a"
    "(((a mod 4) * 16 + b div 16) mod 16) * 16 + ((b mod 16) * 4 + c div 64) div 4 = b"
    "(((b mod 16) * 4 + c div 64) mod 4) * 64 + c mod 64 = c"
    "a div 4 * 4 + ((a mod 4) * 16) div 16 = a"
    "(((a mod 4) * 16 + b div 16) mod 16) * 16 + ((b mod 16) * 4) div 4 = b"
    using l by (simp_all add: div_eq_0_iff)
  then show "char_of (a div 4 * 4 + ((a mod 4) * 16 + b div 16) div 16) = x"
    "char_of ((((a mod 4) * 16 + b div 16) mod 16) * 16 + ((b mod 16) * 4 + c div 64) div 4) = y"
    "char_of ((((b mod 16) * 4 + c div 64) mod 4) * 64 + c mod 64) = z"
    "char_of (a div 4 * 4 + ((a mod 4) * 16) div 16) = x"
    "char_of ((((a mod 4) * 16 + b div 16) mod 16) * 16 + ((b mod 16) * 4) div 4) = y"
    by (simp_all only: a_def b_def c_def char_of_char)
qed

lemma DecodeString_group4:
  assumes "s0 < 64" "s1 < 64" "s2 < 64" "s3 < 64"
  shows "DecodeString (b64 s0 # b64 s1 # b64 s2 # b64 s3 # r) =
           map_option ((@) [char_of (s0 * 4 + s1 div 16), char_of ((s1 mod 16) * 16 + s2 div 4),
                            char_of ((s2 mod 4) * 64 + s3)]) (DecodeString r)"
  using assms by (simp add: decodeStd_b64 b64_not_pad)

lemma DecodeString_group3:
  assumes "s0 < 64" "s1 < 64" "s2 < 64"
  shows "DecodeString [b64 s0, b64 s1, b64 s2, CHR ''=''] =
           Some [char_of (s0 * 4 + s1 div 16), char_of ((s1 mod 16) * 16 + s2 div 4)]"
  using assms by (simp add: decodeStd_b64 b64_not_pad)

lemma DecodeString_group2:
  assumes "s0 < 64" "s1 < 64"
  shows "DecodeString [b64 s0, b64 s1, CHR ''='', CHR ''=''] = Some [char_of (s0 * 4 + s1 div 16)]"
  using assms by (simp add: decodeStd_b64 b64_not_pad)

lemma DecodeString_EncodeToString: "DecodeString (EncodeToString d) = Some d"
proof (induction d rule: EncodeToString.induct)
  case 1
  then show ?case by simp
next
  case (2 x)
  note s = sextets [OF nat_of_char_less_256 [of x] nat_of_char_less_256 [of x] nat_of_char_less_256 [of x]]
  show ?case
    unfolding EncodeToString.simps Let_def DecodeString_group2 [OF s(1) s(5)]
    by (simp only: regroup)
next
  case (3 x y)
  note s = sextets [OF nat_of_char_less_256 [of x] nat_of_char_less_256 [of y] nat_of_char_less_256 [of y]]
  show ?case
    unfolding EncodeToString.simps Let_def DecodeString_group3 [OF s(1) s(2) s(6)]
    by (simp only: regroup)
next
  case (4 x y z r)
  note s = sextets [OF nat_of_char_less_256 [of x] nat_of_char_less_256 [of y] nat_of_char_less_256 [of z]]
  show ?case
    unfolding EncodeToString.simps Let_def append_Cons append_Nil
      DecodeString_group4 [OF s(1) s(2) s(3) s(4)]
    by (simp only: regroup append_Cons append_Nil) (simp add: 4)
qed

text \<open>
  zlib: the reader undoes the writer, whenever the inflater undoes the deflater; the
  stored-block pair does.
\<close>

lemma zlib_roundtrip:
  assumes "\<forall>d t. infl (defl d @ t) = Some (d, t)"
  shows "zlibDecompress infl (zlibCompress defl d) = Some d"
  using assms by (simp add: zlibDecompress_def zlibCompress_def)

lemma storedInflate_block:
  assumes "length d \<le> 65535"
  shows "storedInflate (storedBlock True d @ t) = Some (d, t)"
    and "storedInflate (storedBlock False d @ t) =
           (case storedInflate t of None \<Rightarrow> None | Some (e, rest) \<Rightarrow> Some (d @ e, rest))"
proof -
  let ?n = "length d"
  have m: "?n div 256 < 256" "?n mod 256 + (255 - ?n mod 256) = 255"
    "?n div 256 + (255 - ?n div 256) = 255" "?n mod 256 + 256 * (?n div 256) = ?n"
    using assms by simp_all
  have l: "(255 - ?n mod 256) mod 256 = 255 - ?n mod 256"
    "(255 - ?n div 256) mod 256 = 255 - ?n div 256" "?n div 256 mod 256 = ?n div 256"
    using assms by simp_all
  show "storedInflate (storedBlock True d @ t) = Some (d, t)"
    by (simp add: storedBlock_def Let_def m l)
  show "storedInflate (storedBlock False d @ t) =
           (case storedInflate t of None \<Rightarrow> None | Some (e, rest) \<Rightarrow> Some (d @ e, rest))"
    by (simp add: storedBlock_def Let_def m l split: option.split)
qed

lemma stored_roundtrip: "storedInflate (storedDeflate d @ t) = Some (d, t)"
proof (induction d rule: storedDeflate.induct)
  case (1 d)
  show ?case
  proof (cases "length d \<le> 65535")
    case True
    then show ?thesis
      by (subst storedDeflate.simps) (simp add: storedInflate_block(1))
  next
    case False
    then have "length (take 65535 d) \<le> 65535" by simp
    from storedInflate_block(2) [OF this] 1 [OF False] False show ?thesis
      by (subst storedDeflate.simps) simp
  qed
qed

text \<open>
  JSON: unquoting undoes the escapes that \<^verbatim>\<open>encodeString\<close> writes.
\<close>

lemma hexVal_table: "list_all (\<lambda>n. hexVal (hex n) = Some n) [0..<16]"
  by (simp add: upt_conv_Cons hex_def hexVal_def)

lemma hexVal_hex: "n < 16 \<Longrightarrow> hexVal (hex n) = Some n"
  using hexVal_table by (simp add: list_all_iff)

lemma getu4_hex:
  assumes "a < 16" "b < 16" "c < 16" "d < 16"
  shows "getu4 (CHR 0x5C # CHR ''u'' # hex a # hex b # hex c # hex d # t)
           = Some (a * 4096 + b * 256 + c * 16 + d)"
  using assms by (simp add: getu4_def hexVal_hex)

lemma hex_digits: "hex 0 = CHR ''0''" "hex 2 = CHR ''2''" "hex 8 = CHR ''8''" "hex 9 = CHR ''9''"
  by (simp_all add: hex_def)

lemma unquote_safe:
  assumes "htmlSafeSet (of_char c)"
  shows "unquoteBody (c # t) = map_option ((#) c) (unquoteBody t)"
proof -
  from assms have "c \<noteq> CHR 0x22" "c \<noteq> CHR 0x5C" "\<not> (of_char c :: nat) < 0x20"
    by (auto simp: htmlSafeSet_def)
  then show ?thesis by simp
qed

lemma unquote_raw:
  assumes "\<forall>x \<in> set xs. (0x80 :: nat) \<le> of_char x"
  shows "unquoteBody (xs @ t) = map_option ((@) xs) (unquoteBody t)"
  using assms
proof (induction xs)
  case Nil
  show ?case by (simp add: option.map_ident)
next
  case (Cons x xs)
  then have x: "(0x80 :: nat) \<le> of_char x" and IH: "unquoteBody (xs @ t) = map_option ((@) xs) (unquoteBody t)"
    by simp_all
  from x have "x \<noteq> CHR 0x22" "x \<noteq> CHR 0x5C" "\<not> (of_char x :: nat) < 0x20" by auto
  then show ?case by (simp add: IH option.map_comp o_def)
qed

lemma char_literals:
  "char_of (92::nat) = CHR 0x5C" "char_of (34::nat) = CHR 0x22" "char_of (10::nat) = CHR 0x0A"
  "char_of (13::nat) = CHR 0x0D" "char_of (9::nat) = CHR 0x09"
  by (rule of_char_eqI [where ?'a = nat], simp)+

lemma append_single: "(@) [x] = (#) x"
  by (rule ext) simp

lemma unquote_escapeByte:
  assumes "b < 0x80" and "\<not> htmlSafeSet b"
  shows "unquoteBody (escapeByte b @ t) = map_option ((#) (char_of b)) (unquoteBody t)"
proof -
  consider "b = 0x5C" | "b = 0x22" | "b = 0x0A" | "b = 0x0D" | "b = 0x09"
    | "b \<noteq> 0x5C" "b \<noteq> 0x22" "b \<noteq> 0x0A" "b \<noteq> 0x0D" "b \<noteq> 0x09" by blast
  then show ?thesis
  proof cases
    case 6
    have d: "b div 16 < 16" "b mod 16 < 16" using assms(1) by simp_all
    have e: "escapeByte b = CHR 0x5C # CHR ''u'' # hex 0 # hex 0 # hex (b div 16) # [hex (b mod 16)]"
      using 6 by (simp add: escapeByte_def hex_digits)
    have g: "getu4 (CHR 0x5C # CHR ''u'' # hex 0 # hex 0 # hex (b div 16) # hex (b mod 16) # t) = Some b"
      using getu4_hex [of 0 0 "b div 16" "b mod 16" t] d by simp
    have r: "EncodeRune b = [char_of b]" using assms(1) by (simp add: EncodeRune_def)
    have s: "\<not> (0xD800 \<le> b \<and> b < 0xDC00)" using assms(1) by simp
    show ?thesis
      unfolding e by (simp add: g r s append_single)
  qed (simp_all add: escapeByte_def unescape_def char_literals)
qed

text \<open>
  The shapes of a rune of several bytes that \<^verbatim>\<open>DecodeRuneInString\<close> accepts.
\<close>

lemma acceptRange_bounds: "0x80 \<le> fst (acceptRange s0)" "snd (acceptRange s0) \<le> 0xBF"
  by (simp_all add: acceptRange_def)


lemma long_list:
  "1 \<le> length cs \<Longrightarrow> \<exists>x1 t. cs = x1 # t"
  "2 \<le> length cs \<Longrightarrow> \<exists>x1 x2 t. cs = x1 # x2 # t"
  "3 \<le> length cs \<Longrightarrow> \<exists>x1 x2 x3 t. cs = x1 # x2 # x3 # t"
  by (auto simp: numeral_2_eq_2 numeral_3_eq_3 Suc_le_length_iff)

lemma DecodeRune_short:
  assumes "(0xC2::nat) \<le> of_char c" "(of_char c :: nat) < 0xF5"
    and "length (c # cs) <
           (if (of_char c :: nat) < 0xE0 then 2 else if (of_char c :: nat) < 0xF0 then 3 else 4)"
  shows "DecodeRuneInString (c # cs) = (RuneError, 1)"
  using assms by (simp add: DecodeRuneInString_def Let_def)

lemma three_byte_value:
  fixes s0 s1 s2 v :: nat
  assumes "224 \<le> s0" "s0 < 240" "128 \<le> s1" "s1 \<le> 191" "128 \<le> s2" "s2 \<le> 191"
    and "(s0 - 224) * 4096 + (s1 - 128) * 64 + (s2 - 128) = 8192 + v" and "v < 64"
  shows "s0 = 226 \<and> s1 = 128 \<and> s2 = 128 + v"
proof -
  define a b c where "a = s0 - 224" and "b = s1 - 128" and "c = s2 - 128"
  have bc: "c < 64" "b * 64 + c < 4096" using assms(3-6) by (simp_all add: b_def c_def)
  have eq: "a * 4096 + (b * 64 + c) = 2 * 4096 + v" using assms(7) by (simp add: a_def b_def c_def)
  have "(a * 4096 + (b * 64 + c)) div 4096 = a" using bc(2) by simp
  moreover have "(2 * 4096 + v) div 4096 = 2" using assms(8) by simp
  ultimately have a: "a = 2" using eq by simp
  with eq have eq2: "b * 64 + c = v" by simp
  have "(b * 64 + c) div 64 = b" using bc(1) by simp
  moreover have "v div 64 = 0" using assms(8) by simp
  ultimately have b: "b = 0" using eq2 by simp
  with eq2 have c: "c = v" by simp
  from a b c assms(1,3,5) show ?thesis unfolding a_def b_def c_def by linarith
qed

lemma DecodeRune_shape:
  assumes "(0x80::nat) \<le> of_char c"
    and "\<not> (fst (DecodeRuneInString (c # cs)) = RuneError \<and> snd (DecodeRuneInString (c # cs)) = 1)"
  obtains
    (two) x1 t where "cs = x1 # t" "cont x1" "(of_char c :: nat) < 0xE0"
      "DecodeRuneInString (c # cs) = ((of_char c mod 32) * 64 + of_char x1 mod 64, 2)"
  | (three) x1 x2 t where "cs = x1 # x2 # t" "cont x1" "cont x2"
      "(0xE0::nat) \<le> of_char c" "(of_char c :: nat) < 0xF0"
      "DecodeRuneInString (c # cs) =
         ((of_char c mod 16) * 4096 + (of_char x1 mod 64) * 64 + of_char x2 mod 64, 3)"
  | (four) x1 x2 x3 t where "cs = x1 # x2 # x3 # t" "cont x1" "cont x2" "cont x3"
      "(0xF0::nat) \<le> of_char c" "(of_char c :: nat) < 0xF5"
      "(of_char c :: nat) = 0xF0 \<longrightarrow> (0x90::nat) \<le> of_char x1"
      "DecodeRuneInString (c # cs) =
         ((of_char c mod 8) * 262144 + (of_char x1 mod 64) * 4096 + (of_char x2 mod 64) * 64
            + of_char x3 mod 64, 4)"
proof -
  let ?s0 = "of_char c :: nat"
  note ab = acceptRange_bounds [of ?s0]
  from assms have r: "0xC2 \<le> ?s0" "?s0 < 0xF5"
    by (auto simp: DecodeRuneInString_def Let_def split: if_splits)
  have len: "(if ?s0 < 0xE0 then 2 else if ?s0 < 0xF0 then 3 else 4) \<le> length (c # cs)"
  proof (rule ccontr)
    assume "\<not> (if ?s0 < 0xE0 then 2 else if ?s0 < 0xF0 then 3 else 4) \<le> length (c # cs)"
    then have "length (c # cs) < (if ?s0 < 0xE0 then 2 else if ?s0 < 0xF0 then 3 else 4)"
      by (rule not_le_imp_less)
    from DecodeRune_short [OF r this] assms(2) show False by simp
  qed
  consider "?s0 < 0xE0" | "0xE0 \<le> ?s0" "?s0 < 0xF0" | "0xF0 \<le> ?s0" by linarith
  then show ?thesis
  proof cases
    case 1
    with len have "1 \<le> length cs" by simp
    then obtain x1 t where cs: "cs = x1 # t" using long_list(1) by blast
    with assms r 1 ab have "cont x1"
      "DecodeRuneInString (c # cs) = ((?s0 mod 32) * 64 + of_char x1 mod 64, 2)"
      by (auto simp: DecodeRuneInString_def Let_def cont_def split: if_splits)
    with cs 1 show ?thesis by (intro two [of x1 t]) auto
  next
    case 2
    with len have "2 \<le> length cs" by simp
    then obtain x1 x2 t where cs: "cs = x1 # x2 # t" using long_list(2) by blast
    with assms r 2 ab have "cont x1" "cont x2"
      "DecodeRuneInString (c # cs) =
         ((?s0 mod 16) * 4096 + (of_char x1 mod 64) * 64 + of_char x2 mod 64, 3)"
      by (auto simp: DecodeRuneInString_def Let_def cont_def split: if_splits)
    with cs 2 show ?thesis by (intro three [of x1 x2 t]) auto
  next
    case 3
    with len have "3 \<le> length cs" by simp
    then obtain x1 x2 x3 t where cs: "cs = x1 # x2 # x3 # t" using long_list(3) by blast
    with assms r 3 ab have "cont x1" "cont x2" "cont x3"
      "DecodeRuneInString (c # cs) =
         ((?s0 mod 8) * 262144 + (of_char x1 mod 64) * 4096 + (of_char x2 mod 64) * 64
            + of_char x3 mod 64, 4)"
      by (auto simp: DecodeRuneInString_def Let_def cont_def split: if_splits)
    moreover from cs assms r 3 have "?s0 = 0xF0 \<longrightarrow> (0x90::nat) \<le> of_char x1"
      by (auto simp: DecodeRuneInString_def Let_def acceptRange_def split: if_splits)
    ultimately show ?thesis using cs 3 r by (intro four [of x1 x2 x3 t]) auto
  qed
qed

text \<open>
  Unquoting undoes \<^verbatim>\<open>encodeString\<close> on valid UTF-8; an invalid byte is written
  as the escape of U+FFFD.
\<close>

lemma mod_window:
  fixes n m k :: nat
  assumes "m * k \<le> n" and "n < m * k + m"
  shows "n mod m = n - m * k"
proof -
  have "n = (n - m * k) + m * k" using assms(1) by simp
  then have "n mod m = (n - m * k) mod m" by (metis mod_mult_self2)
  moreover have "n - m * k < m" using assms by linarith
  ultimately show ?thesis by simp
qed

lemma cont_mod: "cont x \<Longrightarrow> (of_char x :: nat) mod 64 = of_char x - 128"
  using mod_window [of 64 2 "of_char x"] by (simp add: cont_def)

lemma cont_raw: "cont x \<Longrightarrow> (0x80::nat) \<le> of_char x"
  by (simp add: cont_def)

lemma char_bytes:
  "(of_char c :: nat) = 226 \<Longrightarrow> c = CHR 0xE2"
  "(of_char c :: nat) = 128 \<Longrightarrow> c = CHR 0x80"
  "(of_char c :: nat) = 168 \<Longrightarrow> c = CHR 0xA8"
  "(of_char c :: nat) = 169 \<Longrightarrow> c = CHR 0xA9"
  by (rule of_char_eqI [where ?'a = nat], simp)+

lemma separator_bytes:
  assumes "cont x1" "cont x2" "(0xE0::nat) \<le> of_char c" "(of_char c :: nat) < 0xF0"
    and "(of_char c mod 16) * 4096 + (of_char x1 mod 64) * 64 + of_char x2 mod 64 = (8192 :: nat) + v"
    and "v = 40 \<or> v = 41"
  shows "c = CHR 0xE2 \<and> x1 = CHR 0x80 \<and> (of_char x2 :: nat) = 128 + v"
proof -
  let ?s0 = "of_char c :: nat" and ?s1 = "of_char x1 :: nat" and ?s2 = "of_char x2 :: nat"
  have m: "?s0 mod 16 = ?s0 - 224" using assms(3,4) mod_window [of 16 14 ?s0] by simp
  have b: "128 \<le> ?s1" "?s1 \<le> 191" "128 \<le> ?s2" "?s2 \<le> 191"
    using assms(1,2) by (simp_all add: cont_def)
  have e: "(?s0 - 224) * 4096 + (?s1 - 128) * 64 + (?s2 - 128) = 8192 + v"
    using assms(5) unfolding m cont_mod [OF assms(1)] cont_mod [OF assms(2)] .
  have v: "v < 64" using assms(6) by auto
  from three_byte_value [OF assms(3,4) b e v] show ?thesis
    by (auto intro: char_bytes)
qed

lemma byte_literals:
  "char_of (226::nat) = CHR 0xE2" "char_of (128::nat) = CHR 0x80" "char_of (168::nat) = CHR 0xA8"
  "char_of (169::nat) = CHR 0xA9"
  by (rule of_char_eqI [where ?'a = nat], simp)+

lemma EncodeRune_separator:
  "EncodeRune 0x2028 = [CHR 0xE2, CHR 0x80, CHR 0xA8]"
  "EncodeRune 0x2029 = [CHR 0xE2, CHR 0x80, CHR 0xA9]"
  by (simp_all add: EncodeRune_def byte_literals)

lemma unquote_separator:
  "unquoteBody ([CHR 0x5C, CHR ''u'', CHR ''2'', CHR ''0'', CHR ''2'', hex 8] @ t)
     = map_option ((@) (EncodeRune 0x2028)) (unquoteBody t)"
  "unquoteBody ([CHR 0x5C, CHR ''u'', CHR ''2'', CHR ''0'', CHR ''2'', hex 9] @ t)
     = map_option ((@) (EncodeRune 0x2029)) (unquoteBody t)"
proof -
  have "getu4 (CHR 0x5C # CHR ''u'' # hex 2 # hex 0 # hex 2 # hex 8 # t) = Some 0x2028"
    "getu4 (CHR 0x5C # CHR ''u'' # hex 2 # hex 0 # hex 2 # hex 9 # t) = Some 0x2029"
    using getu4_hex [of 2 0 2 8 t] getu4_hex [of 2 0 2 9 t] by simp_all
  then show "unquoteBody ([CHR 0x5C, CHR ''u'', CHR ''2'', CHR ''0'', CHR ''2'', hex 8] @ t)
     = map_option ((@) (EncodeRune 0x2028)) (unquoteBody t)"
    "unquoteBody ([CHR 0x5C, CHR ''u'', CHR ''2'', CHR ''0'', CHR ''2'', hex 9] @ t)
     = map_option ((@) (EncodeRune 0x2029)) (unquoteBody t)"
    by (simp_all add: hex_digits)
qed


lemma two_byte_small:
  fixes a b :: nat
  shows "(a mod 32) * 64 + b mod 64 < 0x800"
proof -
  have "a mod 32 \<le> 31" "b mod 64 \<le> 63" by simp_all
  then show ?thesis by linarith
qed

lemma four_byte_large:
  assumes "cont x1" "(0xF0::nat) \<le> of_char c" "(of_char c :: nat) < 0xF5"
    and "(of_char c :: nat) = 0xF0 \<longrightarrow> (0x90::nat) \<le> of_char x1"
  shows "(0x10000::nat) \<le> (of_char c mod 8) * 262144 + (of_char x1 mod 64) * 4096 + k"
proof -
  let ?s0 = "of_char c :: nat" and ?s1 = "of_char x1 :: nat"
  have m: "?s0 mod 8 = ?s0 - 240" using assms(2,3) mod_window [of 8 30 ?s0] by simp
  show ?thesis
  proof (cases "?s0 = 0xF0")
    case True
    with assms(4) have "16 \<le> ?s1 - 128" by simp
    then show ?thesis unfolding cont_mod [OF assms(1)] by linarith
  next
    case False
    with assms(2) have "1 \<le> ?s0 - 240" by simp
    then show ?thesis unfolding m by linarith
  qed
qed

lemma map_option_append: "map_option ((@) xs) (map_option ((@) ys) z) = map_option ((@) (xs @ ys)) z"
  by (cases z) simp_all

lemma encodeString_multi:
  assumes "\<not> (of_char c :: nat) < 0x80"
    and "\<not> (fst (DecodeRuneInString (c # cs)) = RuneError \<and> snd (DecodeRuneInString (c # cs)) = 1)"
  shows "encodeString (c # cs) =
     (if fst (DecodeRuneInString (c # cs)) = 0x2028 \<or> fst (DecodeRuneInString (c # cs)) = 0x2029
      then [CHR 0x5C, CHR ''u'', CHR ''2'', CHR ''0'', CHR ''2'',
            hex (fst (DecodeRuneInString (c # cs)) mod 16)]
             @ encodeString (drop (snd (DecodeRuneInString (c # cs)) - 1) cs)
      else c # take (snd (DecodeRuneInString (c # cs)) - 1) cs
             @ encodeString (drop (snd (DecodeRuneInString (c # cs)) - 1) cs))"
  by (subst encodeString.simps) (simp only: Let_def if_not_P [OF assms(1)] if_not_P [OF assms(2)])

lemma unquote_encodeString:
  "ValidString s \<Longrightarrow> unquoteBody (encodeString s @ t) = map_option ((@) s) (unquoteBody t)"
proof (induction s rule: length_induct)
  case (1 s)
  note IH = "1.IH" [rule_format]
  show ?case
  proof (cases s)
    case Nil
    then show ?thesis by (simp add: option.map_ident)
  next
    case (Cons c cs)
    let ?b = "of_char c :: nat"
    show ?thesis
    proof (cases "?b < 0x80")
      case True
      with "1.prems" Cons have v: "ValidString cs" by simp
      have r: "unquoteBody (encodeString cs @ t) = map_option ((@) cs) (unquoteBody t)"
        using IH [of cs] v Cons by simp
      have c: "char_of ?b = c" by simp
      show ?thesis
      proof (cases "htmlSafeSet ?b")
        case safe: True
        have "unquoteBody (encodeString s @ t) = map_option ((#) c) (unquoteBody (encodeString cs @ t))"
          using True safe Cons unquote_safe [OF safe] by (simp add: Let_def)
        then show ?thesis unfolding r Cons by (simp add: option.map_comp o_def)
      next
        case unsafe: False
        have "unquoteBody (encodeString s @ t)
                = map_option ((#) (char_of ?b)) (unquoteBody (encodeString cs @ t))"
          using True unsafe Cons unquote_escapeByte [OF True unsafe] by (simp add: Let_def)
        then show ?thesis unfolding r Cons c by (simp add: option.map_comp o_def)
      qed
    next
      case False
      then have hi: "(0x80::nat) \<le> ?b" by simp
      let ?r = "fst (DecodeRuneInString (c # cs))" and ?n = "snd (DecodeRuneInString (c # cs))"
      from "1.prems" Cons False have ne: "\<not> (?r = RuneError \<and> ?n = 1)"
        and v: "ValidString (drop (?n - 1) cs)"
        by (simp_all add: Let_def)
      from ne have ne': "(?r = RuneError \<and> ?n = 1) = False" by simp
      have raw: ?thesis
        if "?r \<noteq> 0x2028" "?r \<noteq> 0x2029" "cs = xs @ u" "length xs = ?n - 1"
          "\<forall>x \<in> set xs. (0x80::nat) \<le> of_char x" for xs u
      proof -
        have d: "drop (?n - 1) cs = u" "take (?n - 1) cs = xs" using that(3,4) by simp_all
        have "length u < length s" using that(3) Cons by simp
        from IH [OF this] v d(1)
        have r: "unquoteBody (encodeString u @ t) = map_option ((@) u) (unquoteBody t)" by simp
        have e: "encodeString s = (c # xs) @ encodeString u"
          unfolding Cons encodeString_multi [OF False ne] using that(1,2) d by simp
        have "\<forall>x \<in> set (c # xs). (0x80::nat) \<le> of_char x" using hi that(5) by simp
        from unquote_raw [OF this] have
          "unquoteBody (encodeString s @ t) = map_option ((@) (c # xs)) (unquoteBody (encodeString u @ t))"
          unfolding e append_assoc .
        also have "\<dots> = map_option ((@) ((c # xs) @ u)) (unquoteBody t)"
          unfolding r by (rule map_option_append)
        also have "(c # xs) @ u = s" using that(3) Cons by simp
        finally show ?thesis .
      qed
      from hi ne show ?thesis
      proof (cases rule: DecodeRune_shape)
        case (two x1 u)
        have "?r < 0x800" unfolding two(4) fst_conv by (rule two_byte_small)
        then have "?r \<noteq> 0x2028" "?r \<noteq> 0x2029" by simp_all
        then show ?thesis
          using two cont_raw by (intro raw [of "[x1]" u]) auto
      next
        case (three x1 x2 u)
        show ?thesis
        proof (cases "?r = 0x2028 \<or> ?r = 0x2029")
          case False
          then show ?thesis
            using three cont_raw by (intro raw [of "[x1, x2]" u]) auto
        next
          case True
          then obtain w where w: "w = 40 \<or> w = 41" "?r = 8192 + w" by auto
          from w(2) have "(?b mod 16) * 4096 + (of_char x1 mod 64) * 64 + of_char x2 mod 64
                          = (8192 :: nat) + w"
            unfolding three(6) fst_conv .
          from separator_bytes [OF three(2,3,4,5) this w(1)]
          have bts: "c = CHR 0xE2" "x1 = CHR 0x80" "(of_char x2 :: nat) = 128 + w" by simp_all
          have d: "drop (?n - 1) cs = u" using three(1,6) by simp
          have "length u < length s" using three(1) Cons by simp
          from IH [OF this] v d
          have r: "unquoteBody (encodeString u @ t) = map_option ((@) u) (unquoteBody t)" by simp
          from w(1) show ?thesis
          proof
            assume "w = 40"
            with w(2) bts have r28: "?r = 0x2028" and x2: "x2 = CHR 0xA8"
              by (auto intro: char_bytes)
            have e: "encodeString s =
                      [CHR 0x5C, CHR ''u'', CHR ''2'', CHR ''0'', CHR ''2'', hex 8] @ encodeString u"
              unfolding Cons encodeString_multi [OF False ne] using r28 d by simp
            have "unquoteBody (encodeString s @ t)
                    = map_option ((@) [CHR 0xE2, CHR 0x80, CHR 0xA8]) (unquoteBody (encodeString u @ t))"
              unfolding e append_assoc unquote_separator(1) EncodeRune_separator ..
            also have "\<dots> = map_option ((@) ([CHR 0xE2, CHR 0x80, CHR 0xA8] @ u)) (unquoteBody t)"
              unfolding r by (rule map_option_append)
            also have "[CHR 0xE2, CHR 0x80, CHR 0xA8] @ u = s"
              using Cons three(1) bts x2 by simp
            finally show ?thesis .
          next
            assume "w = 41"
            with w(2) bts have r29: "?r = 0x2029" and x2: "x2 = CHR 0xA9"
              by (auto intro: char_bytes)
            have e: "encodeString s =
                      [CHR 0x5C, CHR ''u'', CHR ''2'', CHR ''0'', CHR ''2'', hex 9] @ encodeString u"
              unfolding Cons encodeString_multi [OF False ne] using r29 d by simp
            have "unquoteBody (encodeString s @ t)
                    = map_option ((@) [CHR 0xE2, CHR 0x80, CHR 0xA9]) (unquoteBody (encodeString u @ t))"
              unfolding e append_assoc unquote_separator(2) EncodeRune_separator ..
            also have "\<dots> = map_option ((@) ([CHR 0xE2, CHR 0x80, CHR 0xA9] @ u)) (unquoteBody t)"
              unfolding r by (rule map_option_append)
            also have "[CHR 0xE2, CHR 0x80, CHR 0xA9] @ u = s"
              using Cons three(1) bts x2 by simp
            finally show ?thesis .
          qed
        qed
      next
        case (four x1 x2 x3 u)
        have "(0x10000::nat) \<le> ?r"
          using four_byte_large [OF four(2,5,6,7), of "(of_char x2 mod 64) * 64 + of_char x3 mod 64"]
          unfolding four(8) fst_conv by linarith
        then have "?r \<noteq> 0x2028" "?r \<noteq> 0x2029" by simp_all
        then show ?thesis
          using four cont_raw by (intro raw [of "[x1, x2, x3]" u]) auto
      qed
    qed
  qed
qed

lemma Unquote_Marshal: "ValidString b \<Longrightarrow> Unquote (fst (json_Marshal b)) = Some b"
  using unquote_encodeString [of b "[CHR 0x22]"]
  by (simp add: Unquote_def json_Marshal_def)

lemma replacement_bytes:
  "char_of (239::nat) = CHR 0xEF" "char_of (191::nat) = CHR 0xBF" "char_of (189::nat) = CHR 0xBD"
  by (rule of_char_eqI [where ?'a = nat], simp)+

lemma marshal_invalid:
  "fst (json_Marshal [CHR 0xFF]) = [CHR 0x22, CHR 0x5C, CHR ''u'', CHR ''f'', CHR ''f'', CHR ''f'', CHR ''d'', CHR 0x22]"
  "fst (json_Marshal [CHR 0xFE]) = [CHR 0x22, CHR 0x5C, CHR ''u'', CHR ''f'', CHR ''f'', CHR ''f'', CHR ''d'', CHR 0x22]"
  by (simp_all add: json_Marshal_def DecodeRuneInString_def)

lemma unquote_replacement:
  "Unquote [CHR 0x22, CHR 0x5C, CHR ''u'', CHR ''f'', CHR ''f'', CHR ''f'', CHR ''d'', CHR 0x22]
     = Some [CHR 0xEF, CHR 0xBF, CHR 0xBD]"
  by (simp add: Unquote_def getu4_def hexVal_def EncodeRune_def replacement_bytes)

subsection \<open>Where a walk ends, and what follows an exchange\<close>



lemma walkLoop_calls:
  assumes "walkLoop E pp u t vs s = (None, s')"
  obtains new where "calls s' = calls s @ new"
    "map fst new = map (uploadOf E pp u) (filter (isModified t) vs)"
    "list_all (\<lambda>x. hasResponse (snd x)) new"
    "fileList s' = fileList s @ map (relPath pp) (filter isFile vs)"
    "modifiedList s' = modifiedList s @ map (relPath pp) (filter (isModified t) vs)"
    "out s' = out s @ map statusLine new"
proof -
  from walkLoop_run [OF assms] obtain new where
    r: "walkedTo E pp u t s vs None new s'" by auto
  then have "list_all (\<lambda>x. hasResponse (snd x)) new" by (simp add: walkedTo_def)
  then have "filter (\<lambda>x. hasResponse (snd x)) new = new" by (simp add: list_all_iff)
  with r show ?thesis
    by (intro that [of new]) (auto simp: walkedTo_def)
qed







text \<open>
  When every upload brings a response and every entry can be visited, the walk
  returns, and the run makes the request that ends it.
\<close>

lemma walkLoop_answered:
  assumes "\<forall>k q m. body q = PFile m \<longrightarrow> hasResponse (net E k q)"
  shows "list_all (visitable pp) vs \<Longrightarrow> \<exists>s'. walkLoop E pp u t vs s = (None, s')"
proof (induction vs arbitrary: s)
  case Nil
  then show ?case by simp
next
  case (Cons v vs)
  then have v: "visitable pp v" and vs: "list_all (visitable pp) vs" by simp_all
  show ?case
  proof (cases rule: walkFn_cases [of v E pp u t s])
    case nil
    with v show ?thesis by (simp add: visitable_def)
  next
    case dir
    with Cons.IH [OF vs, of s] show ?thesis by simp
  next
    case short
    with v show ?thesis by (simp add: visitable_def)
  next
    case old
    with Cons.IH [OF vs, of "s\<lparr>fileList := fileList s @ [relPath pp v]\<rparr>"] show ?thesis by simp
  next
    case new
    from assms have "hasResponse (net E (length (calls s)) (uploadOf E pp u v))"
      by (simp add: uploadOf_def)
    from walkFn_new_response [OF new this] obtain s1 where
      "walkFn E pp u t v s = (None, s1)" by blast
    with Cons.IH [OF vs, of s1] show ?thesis by simp
  qed
qed

lemma syncFiles_answered:
  assumes "\<forall>k q m. body q = PFile m \<longrightarrow> hasResponse (net E k q)"
    and "list_all (visitable pp) (Walk pp root)"
  shows "\<exists>ups w1. syncFiles E root pp pid t w =
            (Returned (map (relPath pp) (filter isFile (Walk pp root)),
                       map (relPath pp) (filter (isModified t) (Walk pp root))), w1) \<and>
          calls w1 = calls w @ ups \<and> map fst ups = uploadsOf E pp pid t (Walk pp root) \<and>
          list_all (\<lambda>x. hasResponse (snd x)) ups"
proof -
  from walkLoop_answered [OF assms] obtain s where
    s: "walkLoop E pp (uploadUrl E pid) t (Walk pp root) (startState E pid w) = (None, s)"
    by blast
  from s obtain new where
    n: "calls s = calls (startState E pid w) @ new"
    "map fst new = map (uploadOf E pp (uploadUrl E pid)) (filter (isModified t) (Walk pp root))"
    "list_all (\<lambda>x. hasResponse (snd x)) new"
    "fileList s = fileList (startState E pid w) @ map (relPath pp) (filter isFile (Walk pp root))"
    "modifiedList s = modifiedList (startState E pid w)
        @ map (relPath pp) (filter (isModified t) (Walk pp root))"
    by (rule walkLoop_calls)
  have "syncFiles E root pp pid t w =
          (Returned (fileList s, modifiedList s), \<lparr>calls = calls s, out = out s\<rparr>)"
    using s by (simp add: syncFiles_def syncWalk_def)
  with n show ?thesis
    by (intro exI [of _ new] exI [of _ "\<lparr>calls = calls s, out = out s\<rparr>"])
      (simp add: startState_def uploadsOf_def)
qed

lemma finish_result:
  "finish req E w = (oc, w') \<Longrightarrow>
     calls w' = calls w @ (if net E (length (calls w)) req = NoRequest then []
                           else [(req, net E (length (calls w)) req)]) \<and>
     oc = (case net E (length (calls w)) req of
             Response x \<Rightarrow> Returned () | FailureWithResponse x \<Rightarrow> Panicked PanicErr
           | _ \<Rightarrow> Panicked NilPointer)"
  by (cases rule: finish_cases) auto




text \<open>The requests of a bind run, in their order.\<close>

lemma BindProject_order:
  assumes "BindProject E root pp n l b w = (oc, w')"
  shows "\<exists>pre ups fin start a.
     start = bindRequest E pp n l b \<and>
     a = net E (length (calls w)) start \<and>
     calls w' = calls w @ pre @ ups @ fin \<and>
     pre = (if a = NoRequest then [] else [(start, a)]) \<and>
     (ups = [] \<and> fin = [] \<or>
      (\<exists>r info pid.
          a = Response r \<and> Body r = Object info \<and> info ''projectID'' = Some (JString pid) \<and>
          (\<exists>seen rest. Walk pp root = seen @ rest \<and>
             (map fst ups = uploadsOf E pp pid 0 seen \<or>
              map fst ups = butlast (uploadsOf E pp pid 0 seen))) \<and>
          (fin = [] \<or>
           (\<exists>e. fin = [(bindEndRequest E pid, e)]) \<and>
           map fst ups = uploadsOf E pp pid 0 (Walk pp root) \<and>
           list_all (\<lambda>x. hasResponse (snd x)) ups))) \<and>
     (oc = Returned () \<longrightarrow>
        a = Failure \<or> (\<exists>r. a = FailureWithResponse r) \<or> (\<exists>q r. fin = [(q, Response r)])) \<and>
     (\<forall>r info pid.
        (\<forall>k q m. body q = PFile m \<longrightarrow> hasResponse (net E k q)) \<and>
        list_all (visitable pp) (Walk pp root) \<and>
        a = Response r \<and> Body r = Object info \<and> info ''projectID'' = Some (JString pid) \<longrightarrow>
        map fst ups = uploadsOf E pp pid 0 (Walk pp root) \<and>
        fin = (if net E (length (calls w @ pre @ ups)) (bindEndRequest E pid) = NoRequest then []
               else [(bindEndRequest E pid,
                      net E (length (calls w @ pre @ ups)) (bindEndRequest E pid))]))"
  using assms
proof (cases rule: BindProject_cases)
  case norequest
  show ?thesis
    apply (rule exI [of _ "[]"], rule exI [of _ "[]"], rule exI [of _ "[]"])
    apply (rule exI [of _ "bindRequest E pp n l b"], rule exI [of _ NoRequest])
    using norequest by simp
next
  case (failed a)
  show ?thesis
    apply (rule exI [of _ "[(bindRequest E pp n l b, a)]"], rule exI [of _ "[]"], rule exI [of _ "[]"])
    apply (rule exI [of _ "bindRequest E pp n l b"], rule exI [of _ a])
    using failed by auto
next
  case (badbody r)
  show ?thesis
    apply (rule exI [of _ "[(bindRequest E pp n l b, Response r)]"], rule exI [of _ "[]"], rule exI [of _ "[]"])
    apply (rule exI [of _ "bindRequest E pp n l b"], rule exI [of _ "Response r"])
    using badbody by auto
next
  case (walkpanic r info pid w2 p)
  from syncFiles_Panicked [OF walkpanic(5)] obtain s where
    s: "syncWalk E root pp pid 0 w2 = (Some p, s)" "calls w' = calls s" by blast
  from s(1) obtain seen rest new where
    n: "Walk pp root = seen @ rest" "calls s = calls w2 @ new"
    "map fst new = uploadsOf E pp pid 0 seen \<or> map fst new = butlast (uploadsOf E pp pid 0 seen)"
    by (cases rule: syncWalk_calls) blast
  have c: "calls w' = calls w @ [(bindRequest E pp n l b, Response r)] @ new @ []"
    using s(2) n(2) walkpanic(4) by simp
  have live: False
    if "\<forall>k q m. body q = PFile m \<longrightarrow> hasResponse (net E k q)"
      and "list_all (visitable pp) (Walk pp root)"
    using syncFiles_answered [OF that, of pid 0 w2] walkpanic(5) by auto
  have d: "\<exists>r' info' pid'.
          Response r = Response r' \<and> Body r' = Object info' \<and> info' ''projectID'' = Some (JString pid') \<and>
          (\<exists>seen rest. Walk pp root = seen @ rest \<and>
             (map fst new = uploadsOf E pp pid' 0 seen \<or>
              map fst new = butlast (uploadsOf E pp pid' 0 seen))) \<and>
          ([] = [] \<or>
           (\<exists>e. [] = [(bindEndRequest E pid', e)]) \<and>
           map fst new = uploadsOf E pp pid' 0 (Walk pp root) \<and>
           list_all (\<lambda>x. hasResponse (snd x)) new)"
    using walkpanic(2,3) n(1,3) by blast
  show ?thesis
    apply (rule exI [of _ "[(bindRequest E pp n l b, Response r)]"], rule exI [of _ new], rule exI [of _ "[]"])
    apply (rule exI [of _ "bindRequest E pp n l b"], rule exI [of _ "Response r"])
    apply (intro conjI)
          apply (rule refl)
         apply (simp add: walkpanic(1))
        apply (rule c)
       apply simp
      apply (rule disjI2, rule d)
     apply (simp add: walkpanic(6))
    using live by blast
next
  case (finished r info pid w2 files modfiles w3)
  from syncFiles_Returned [OF finished(5)] obtain s where
    s: "syncWalk E root pp pid 0 w2 = (None, s)" "calls w3 = calls s" by blast
  from s(1) obtain new where
    n: "calls s = calls w2 @ new" "map fst new = uploadsOf E pp pid 0 (Walk pp root)"
      "list_all (\<lambda>x. hasResponse (snd x)) new"
    by (cases rule: syncWalk_calls) auto
  let ?pre = "[(bindRequest E pp n l b, Response r)]"
  let ?e = "net E (length (calls w3)) (bindEndRequest E pid)"
  let ?fin = "if ?e = NoRequest then [] else [(bindEndRequest E pid, ?e)]"
  have c3: "calls w3 = calls w @ ?pre @ new" using s(2) n(1) finished(4) by simp
  from finish_result [OF finished(6) [unfolded completeRemotebind_def]]
  have f: "calls w' = calls w3 @ ?fin"
    "oc = (case ?e of Response x \<Rightarrow> Returned () | FailureWithResponse x \<Rightarrow> Panicked PanicErr
           | _ \<Rightarrow> Panicked NilPointer)"
    by simp_all
  have c: "calls w' = calls w @ ?pre @ new @ ?fin" using f(1) c3 by simp
  have w: "Walk pp root = Walk pp root @ []" by simp
  have d: "\<exists>r' info' pid'.
          Response r = Response r' \<and> Body r' = Object info' \<and> info' ''projectID'' = Some (JString pid') \<and>
          (\<exists>seen rest. Walk pp root = seen @ rest \<and>
             (map fst new = uploadsOf E pp pid' 0 seen \<or>
              map fst new = butlast (uploadsOf E pp pid' 0 seen))) \<and>
          (?fin = [] \<or>
           (\<exists>e. ?fin = [(bindEndRequest E pid', e)]) \<and>
           map fst new = uploadsOf E pp pid' 0 (Walk pp root) \<and>
           list_all (\<lambda>x. hasResponse (snd x)) new)"
    using finished(2,3) n(2,3) w by (cases "?e = NoRequest") (simp_all, blast+)
  have ret: "oc = Returned () \<longrightarrow> (\<exists>q x. ?fin = [(q, Response x)])"
    using f(2) by (cases ?e) auto
  have live: "map fst new = uploadsOf E pp pid' 0 (Walk pp root) \<and>
        ?fin = (if net E (length (calls w @ ?pre @ new)) (bindEndRequest E pid') = NoRequest then []
               else [(bindEndRequest E pid',
                      net E (length (calls w @ ?pre @ new)) (bindEndRequest E pid'))])"
    if "Response r = Response r'" "Body r' = Object info'" "info' ''projectID'' = Some (JString pid')"
    for r' info' pid'
  proof -
    from that finished(2,3) have "pid' = pid" by simp
    then show ?thesis using n(2) c3 by simp
  qed
  show ?thesis
    apply (rule exI [of _ ?pre], rule exI [of _ new], rule exI [of _ ?fin])
    apply (rule exI [of _ "bindRequest E pp n l b"], rule exI [of _ "Response r"])
    apply (intro conjI)
          apply (rule refl)
         apply (simp add: finished(1))
        apply (rule c)
       apply simp
      apply (rule disjI2, rule d)
     using ret apply blast
    using live by blast
qed

lemma beginErrorNet:
  "net beginErrorEnv n r = (if n = 0 then Response errorWithProject else Response okResponse)"
  by (simp add: beginErrorEnv_def demoEnv_def)

lemma errorWithProject_body:
  "Body errorWithProject = Object [''projectID'' \<mapsto> JString ''p1'']"
  by (simp add: errorWithProject_def okResponse_def)



section \<open>The claims\<close>

text \<open>
  C1, as stated, does not hold.  \<^verbatim>\<open>json.Marshal\<close> writes every byte that starts
  no valid UTF-8 encoding as the escape of U+FFFD, so the byte sequences FF and FE have
  the same encoding, whatever the compressor, and no decoder restores both; the decoder
  of the specification answers EF BF BD, the UTF-8 form of U+FFFD, for FF.
\<close>

theorem invalid_byte_is_not_restored:
  "(\<forall>defl dec. \<not> (dec (encode defl [CHR 0xFF]) = [CHR 0xFF] \<and>
                     dec (encode defl [CHR 0xFE]) = [CHR 0xFE])) \<and>
   decode storedInflate (encode storedDeflate [CHR 0xFF]) = Some [CHR 0xEF, CHR 0xBF, CHR 0xBD]"
proof (rule conjI)
  have e: "encode defl [CHR 0xFF] = encode defl [CHR 0xFE]" for defl
    by (simp only: encode_def marshal_invalid)
  show "\<forall>defl dec. \<not> (dec (encode defl [CHR 0xFF]) = [CHR 0xFF] \<and>
                     dec (encode defl [CHR 0xFE]) = [CHR 0xFE])"
  proof (intro allI notI, elim conjE)
    fix defl and dec :: "string \<Rightarrow> string"
    assume a: "dec (encode defl [CHR 0xFF]) = [CHR 0xFF]"
      and b: "dec (encode defl [CHR 0xFE]) = [CHR 0xFE]"
    have "[CHR 0xFF] = dec (encode defl [CHR 0xFF])"
      using a by (rule sym)
    also have "\<dots> = dec (encode defl [CHR 0xFE])"
      by (simp only: e)
    also note b
    finally show False
      by simp
  qed
  have z: "zlibDecompress storedInflate (zlibCompress storedDeflate d) = Some d" for d
    by (rule zlib_roundtrip) (simp add: stored_roundtrip)
  show "decode storedInflate (encode storedDeflate [CHR 0xFF]) = Some [CHR 0xEF, CHR 0xBF, CHR 0xBD]"
    unfolding decode_def encode_def encodeContent_def marshal_invalid
      DecodeString_EncodeToString z option.case
    by (rule unquote_replacement)
qed

text \<open>
  C1, amended.  For every byte sequence that is valid UTF-8, the empty one included,
  decoding the encoded content restores it exactly, for every compressor whose
  inflater returns the compressed bytes and what follows the stream.
\<close>

theorem decode_encode_valid_utf8:
  assumes "\<forall>d t. infl (defl d @ t) = Some (d, t)" and "ValidString b"
  shows "decode infl (encode defl b) = Some b"
  by (simp add: decode_def encode_def encodeContent_def DecodeString_EncodeToString
      zlib_roundtrip [OF assms(1)] Unquote_Marshal [OF assms(2)])

theorem decode_encode_valid_utf8_witness:
  "(\<forall>d t. storedInflate (storedDeflate d @ t) = Some (d, t)) \<and>
   ValidString [CHR ''h'', CHR 0xC3, CHR 0xA9, CHR ''<'', CHR 0x0A] \<and>
   decode storedInflate (encode storedDeflate [CHR ''h'', CHR 0xC3, CHR 0xA9, CHR ''<'', CHR 0x0A])
     = Some [CHR ''h'', CHR 0xC3, CHR 0xA9, CHR ''<'', CHR 0x0A] \<and>
   decode storedInflate (encode storedDeflate []) = Some []"
proof -
  have a: "\<forall>d t. storedInflate (storedDeflate d @ t) = Some (d, t)"
    by (simp add: stored_roundtrip)
  have b: "ValidString [CHR ''h'', CHR 0xC3, CHR 0xA9, CHR ''<'', CHR 0x0A]"
    by (simp add: DecodeRuneInString_def acceptRange_def RuneError_def)
  have c: "ValidString []" by simp
  from decode_encode_valid_utf8 [OF a b] decode_encode_valid_utf8 [OF a c] a b show ?thesis by simp
qed

text \<open>
  C3.  A run of \<^verbatim>\<open>syncFiles\<close> that returns puts into the list of modified files
  exactly the files whose modification time in milliseconds is strictly greater than
  the cursor, in the order of the walk, and uploads exactly those; a file whose time
  equals the cursor is therefore neither listed as modified nor uploaded.
\<close>

theorem modified_iff_strictly_newer:
  assumes "syncFiles E root pp pid t w = (Returned (files, modfiles), w')"
  shows "modfiles = map (relPath pp) (filter (\<lambda>v. isFile v \<and> t < modifiedAtMillis v) (Walk pp root)) \<and>
         map fst (drop (length (calls w)) (calls w')) =
           map (uploadOf E pp (uploadUrl E pid))
             (filter (\<lambda>v. isFile v \<and> t < modifiedAtMillis v) (Walk pp root))"
proof -
  have eq: "(\<lambda>v. isFile v \<and> t < modifiedAtMillis v) = isModified t"
    by (rule ext) (simp add: isModified_def)
  from syncFiles_Returned [OF assms] obtain s where
    s: "syncWalk E root pp pid t w = (None, s)" "modfiles = modifiedList s" "calls w' = calls s"
    by blast
  from syncWalk_run [OF s(1)] obtain new where
    "walkedTo E pp (uploadUrl E pid) t (startState E pid w) (Walk pp root) None new s"
    by auto
  then show ?thesis
    unfolding eq using s(2,3) by (simp add: walkedTo_def startState_def)
qed

theorem modified_iff_strictly_newer_witness:
  "syncFiles demoEnv demoTree ''proj'' ''p1'' 200 emptyWorld =
     (Returned ([''a'', ''b/c'', ''b/d''], [''b/d'']),
      snd (syncFiles demoEnv demoTree ''proj'' ''p1'' 200 emptyWorld)) \<and>
   [''b/d''] =
     map (relPath ''proj'')
       (filter (\<lambda>v. isFile v \<and> 200 < modifiedAtMillis v) (Walk ''proj'' demoTree))"
proof -
  have "fst (syncFiles demoEnv demoTree ''proj'' ''p1'' 200 emptyWorld)
          = Returned ([''a'', ''b/c'', ''b/d''], [''b/d''])"
    by (simp add: syncFiles_def demoSync)
  then have h: "syncFiles demoEnv demoTree ''proj'' ''p1'' 200 emptyWorld =
     (Returned ([''a'', ''b/c'', ''b/d''], [''b/d'']),
      snd (syncFiles demoEnv demoTree ''proj'' ''p1'' 200 emptyWorld))"
    by (metis prod.collapse)
  from modified_iff_strictly_newer [OF h] h show ?thesis by blast
qed

text \<open>
  C7.  At the end of every walk, whether it returned or panicked, each modified
  file is among the files listed, and every request made during the walk carries a
  file message whose path is in the list of modified files: nothing is sent for a
  path outside that list.
\<close>

theorem modified_subset_and_only_modified_sent:
  assumes "syncWalk E root pp pid t w = (po, s)"
  shows "set (modifiedList s) \<subseteq> set (fileList s) \<and>
         (\<forall>x \<in> set (drop (length (calls w)) (calls s)).
            \<exists>m. body (fst x) = PFile m \<and> RelativePath m \<in> set (modifiedList s))"
proof -
  from syncWalk_run [OF assms] obtain seen rest new where
    r: "walkedTo E pp (uploadUrl E pid) t (startState E pid w) seen po new s"
    by blast
  then have fl: "fileList s = map (relPath pp) (filter isFile seen)"
    and ml: "modifiedList s = map (relPath pp) (filter (isModified t) seen)"
    and cs: "drop (length (calls w)) (calls s) = new"
    by (simp_all add: walkedTo_def startState_def)
  have "set (modifiedList s) \<subseteq> set (fileList s)"
    unfolding fl ml by (auto simp: isModified_def)
  moreover have "\<exists>m. body (fst x) = PFile m \<and> RelativePath m \<in> set (modifiedList s)"
    if "x \<in> set new" for x
  proof -
    from walkedTo_uploads [OF r that] obtain v where
      "v \<in> set seen" "isModified t v" "fst x = uploadOf E pp (uploadUrl E pid) v" by blast
    then show ?thesis unfolding ml by (auto simp: uploadOf_def)
  qed
  ultimately show ?thesis unfolding cs by blast
qed

theorem modified_subset_and_only_modified_sent_witness:
  "fileList (snd (syncWalk demoEnv demoTree ''proj'' ''p1'' 200 emptyWorld))
     = [''a'', ''b/c'', ''b/d''] \<and>
   modifiedList (snd (syncWalk demoEnv demoTree ''proj'' ''p1'' 200 emptyWorld)) = [''b/d''] \<and>
   set (modifiedList (snd (syncWalk demoEnv demoTree ''proj'' ''p1'' 200 emptyWorld)))
     \<subseteq> set (fileList (snd (syncWalk demoEnv demoTree ''proj'' ''p1'' 200 emptyWorld)))"
proof -
  have "syncWalk demoEnv demoTree ''proj'' ''p1'' 200 emptyWorld =
          (fst (syncWalk demoEnv demoTree ''proj'' ''p1'' 200 emptyWorld),
           snd (syncWalk demoEnv demoTree ''proj'' ''p1'' 200 emptyWorld))"
    by simp
  from modified_subset_and_only_modified_sent [OF this] show ?thesis
    by (simp add: demoSync)
qed




text \<open>
  C9.  A run of \<^verbatim>\<open>SyncProject\<close> that returns ends with the end-of-sync request.
  Its list of modified files holds the files whose modification time in nanoseconds,
  divided by 1000000 with Go's integer division, is greater than the cursor, and its
  \<^verbatim>\<open>timeStamp\<close> is that same cursor: both sides of the comparison and the time
  stamp sent are milliseconds.
\<close>

theorem file_times_and_time_stamp_in_milliseconds:
  assumes "SyncProject E root pp pid t w = (Returned (), w')"
  shows "fst (last (calls w')) =
           \<lparr>httpMethod = ''POST'', url = PFEApiRoute E @ ''projects/'' @ pid @ ''/upload/end'',
            body = PComplete
              \<lparr>FileList = map (relPath pp) (filter isFile (Walk pp root)),
               ModifiedList = map (relPath pp)
                 (filter (\<lambda>v. isFile v \<and> t < modTimeNanos v sdiv 1000000) (Walk pp root)),
               TimeStamp = t\<rparr>\<rparr>"
proof -
  from assms obtain files modfiles w1 where
    sf: "syncFiles E root pp pid t w = (Returned (files, modfiles), w1)"
    and cu: "completeUpload E pid files modfiles t
               (w1\<lparr>out := out w1 @ [printSlice files, printSlice modfiles]\<rparr>) = (Returned (), w')"
    by (auto simp: SyncProject_def split: prod.splits outcome.splits)
  from syncFiles_Returned [OF sf] obtain s where
    s: "syncWalk E root pp pid t w = (None, s)" "files = fileList s" "modfiles = modifiedList s"
    by blast
  from syncWalk_run [OF s(1)] obtain new where
    "walkedTo E pp (uploadUrl E pid) t (startState E pid w) (Walk pp root) None new s"
    by auto
  then have l: "files = map (relPath pp) (filter isFile (Walk pp root))"
    "modfiles = map (relPath pp) (filter (isModified t) (Walk pp root))"
    using s(2,3) by (simp_all add: walkedTo_def startState_def)
  from cu have "fst (last (calls w')) = completeRequest E pid files modfiles t"
    unfolding completeUpload_def by (cases rule: finish_cases) auto
  then show ?thesis
    unfolding l isModified_nanos by (simp add: completeRequest_def)
qed

theorem file_times_and_time_stamp_in_milliseconds_witness:
  "fst (SyncProject demoEnv demoTree ''proj'' ''p1'' 200 emptyWorld) = Returned () \<and>
   fst (last (calls (snd (SyncProject demoEnv demoTree ''proj'' ''p1'' 200 emptyWorld)))) =
     \<lparr>httpMethod = ''POST'', url = ''http://localhost:9090/api/v1/projects/p1/upload/end'',
      body = PComplete \<lparr>FileList = [''a'', ''b/c'', ''b/d''], ModifiedList = [''b/d''],
                        TimeStamp = 200\<rparr>\<rparr>"
proof -
  let ?R = "SyncProject demoEnv demoTree ''proj'' ''p1'' 200 emptyWorld"
  have r: "fst ?R = Returned ()"
    by (simp add: SyncProject_def syncFiles_def demoSync completeUpload_def finish_def)
  then have h: "?R = (Returned (), snd ?R)" by (metis prod.collapse)
  from file_times_and_time_stamp_in_milliseconds [OF h] r show ?thesis
    by (simp add: demoWalk visit_eval) (simp add: demoEnv_def)
qed

text \<open>
  C6.  A file last modified at the epoch itself, bound with cursor 0: it is listed
  but not taken for modified, and the bind run makes the start and the end request
  and no upload.
\<close>

theorem bind_leaves_out_file_dated_epoch:
  "fst (syncFiles demoEnv epochTree ''proj'' ''p1'' 0 emptyWorld) = Returned ([''old.txt''], []) \<and>
   map fst (calls (snd (BindProject demoEnv epochTree ''proj'' ''demo'' ''go'' ''docker'' emptyWorld)))
     = [bindRequest demoEnv ''proj'' ''demo'' ''go'' ''docker'', bindEndRequest demoEnv ''p1'']"
  by (simp add: BindProject_def completeRemotebind_def finish_def syncFiles_def syncWalk_def
      epochWalk startState_def walkFn_eval visit_eval Let_def emptyWorld_def)

text \<open>
  C5 as stated fails where it says that the start request has succeeded.  The
  start request of this bind run is answered with status 500; the body names a
  project, so the file is uploaded and the end request is made.
\<close>

theorem uploads_follow_begin_answered_with_error_status:
  "Status errorWithProject = ''500 Internal Server Error'' \<and>
   fst (BindProject beginErrorEnv mainTree ''proj'' ''demo'' ''go'' ''docker'' emptyWorld)
     = Returned () \<and>
   map summary
     (calls (snd (BindProject beginErrorEnv mainTree ''proj'' ''demo'' ''go'' ''docker'' emptyWorld)))
     = [(''POST'', [], Response errorWithProject), (''PUT'', ''main.txt'', Response okResponse),
        (''POST'', [], Response okResponse)]"
  by (simp add: run_eval mainWalk beginErrorNet errorWithProject_body)
    (simp add: errorWithProject_def)

text \<open>
  C5, amended.  The requests of a bind run are, in this order: the start request
  (missing only when it cannot be built), then uploads, then at most one end request.
  There is an upload or an end request only if the start request was answered,
  without error, by a response whose body names a project identifier; the status of
  that response plays no part.  The uploads are those of the modified files of an
  initial part of the walk, and there is an end request only after the upload of
  every modified file of the whole walk, each answered by a response.  A run that
  returns after a start request answered without error has made the end request.
  When the start request is so answered, every upload brings a response and every
  entry can be visited, the uploads are exactly those of the modified files and the
  end request, unless it cannot be built, follows them: one start request, one
  upload and one end request for a tree with one modified file.
\<close>

theorem bind_requests_in_order:
  assumes "BindProject E root pp n l b w = (oc, w')"
  shows "\<exists>pre ups fin start a.
     start = \<lparr>httpMethod = ''POST'', url = PFEApiRoute E @ ''projects/remote-bind/start'',
              body = PBind \<lparr>Language = l, ProjectType = b, Name = n, Path = pp\<rparr>\<rparr> \<and>
     a = net E (length (calls w)) start \<and>
     calls w' = calls w @ pre @ ups @ fin \<and>
     pre = (if a = NoRequest then [] else [(start, a)]) \<and>
     (ups = [] \<and> fin = [] \<or>
      (\<exists>r info pid.
          a = Response r \<and> Body r = Object info \<and> info ''projectID'' = Some (JString pid) \<and>
          (\<exists>seen rest. Walk pp root = seen @ rest \<and>
             (map fst ups = uploadsOf E pp pid 0 seen \<or>
              map fst ups = butlast (uploadsOf E pp pid 0 seen))) \<and>
          (fin = [] \<or>
           (\<exists>e. fin = [(\<lparr>httpMethod = ''POST'',
                          url = PFEApiRoute E @ ''projects/'' @ pid @ ''/remote-bind/end'',
                          body = PBindEnd \<lparr>ProjectID = pid\<rparr>\<rparr>, e)]) \<and>
           map fst ups = uploadsOf E pp pid 0 (Walk pp root) \<and>
           list_all (\<lambda>x. hasResponse (snd x)) ups))) \<and>
     (oc = Returned () \<longrightarrow>
        a = Failure \<or> (\<exists>r. a = FailureWithResponse r) \<or> (\<exists>q r. fin = [(q, Response r)])) \<and>
     (\<forall>r info pid.
        (\<forall>k q m. body q = PFile m \<longrightarrow> hasResponse (net E k q)) \<and>
        list_all (visitable pp) (Walk pp root) \<and>
        a = Response r \<and> Body r = Object info \<and> info ''projectID'' = Some (JString pid) \<longrightarrow>
        map fst ups = uploadsOf E pp pid 0 (Walk pp root) \<and>
        fin = (if net E (length (calls w @ pre @ ups))
                    \<lparr>httpMethod = ''POST'',
                     url = PFEApiRoute E @ ''projects/'' @ pid @ ''/remote-bind/end'',
                     body = PBindEnd \<lparr>ProjectID = pid\<rparr>\<rparr> = NoRequest then []
               else [(\<lparr>httpMethod = ''POST'',
                      url = PFEApiRoute E @ ''projects/'' @ pid @ ''/remote-bind/end'',
                      body = PBindEnd \<lparr>ProjectID = pid\<rparr>\<rparr>,
                      net E (length (calls w @ pre @ ups))
                        \<lparr>httpMethod = ''POST'',
                         url = PFEApiRoute E @ ''projects/'' @ pid @ ''/remote-bind/end'',
                         body = PBindEnd \<lparr>ProjectID = pid\<rparr>\<rparr>)]))"
  using BindProject_order [OF assms] unfolding bindRequest_def bindEndRequest_def .

theorem bind_requests_in_order_witness:
  "fst (BindProject demoEnv mainTree ''proj'' ''demo'' ''go'' ''docker'' emptyWorld) = Returned () \<and>
   map fst (calls (snd (BindProject demoEnv mainTree ''proj'' ''demo'' ''go'' ''docker'' emptyWorld)))
     = [\<lparr>httpMethod = ''POST'',
         url = ''http://localhost:9090/api/v1/projects/remote-bind/start'',
         body = PBind \<lparr>Language = ''go'', ProjectType = ''docker'', Name = ''demo'',
                       Path = ''proj''\<rparr>\<rparr>,
        \<lparr>httpMethod = ''PUT'',
         url = ''http://localhost:9090/api/v1/projects/p1/remote-bind/upload'',
         body = PFile \<lparr>IsDirectory = False, RelativePath = ''main.txt'',
                       Message = encode storedDeflate ''hello''\<rparr>\<rparr>,
        \<lparr>httpMethod = ''POST'',
         url = ''http://localhost:9090/api/v1/projects/p1/remote-bind/end'',
         body = PBindEnd \<lparr>ProjectID = ''p1''\<rparr>\<rparr>]"
proof -
  let ?R = "BindProject demoEnv mainTree ''proj'' ''demo'' ''go'' ''docker'' emptyWorld"
  let ?end = "\<lparr>httpMethod = ''POST'',
                url = PFEApiRoute demoEnv @ ''projects/'' @ ''p1'' @ ''/remote-bind/end'',
                body = PBindEnd \<lparr>ProjectID = ''p1''\<rparr>\<rparr>"
  have h: "?R = (fst ?R, snd ?R)" by simp
  have r: "fst ?R = Returned ()" by (simp add: run_eval mainWalk)
  have A: "\<forall>k q m. body q = PFile m \<longrightarrow> hasResponse (net demoEnv k q)" by simp
  have V: "list_all (visitable ''proj'') (Walk ''proj'' mainTree)"
    by (simp add: mainWalk visitable_def isFile_def)
  from bind_requests_in_order [OF h] obtain pre ups fin start a where
    b: "start = \<lparr>httpMethod = ''POST'', url = PFEApiRoute demoEnv @ ''projects/remote-bind/start'',
              body = PBind \<lparr>Language = ''go'', ProjectType = ''docker'', Name = ''demo'',
                            Path = ''proj''\<rparr>\<rparr>"
    and a: "a = net demoEnv (length (calls emptyWorld)) start"
    and c: "calls (snd ?R) = calls emptyWorld @ pre @ ups @ fin"
    and p: "pre = (if a = NoRequest then [] else [(start, a)])"
    and live: "\<forall>r info pid.
        (\<forall>k q m. body q = PFile m \<longrightarrow> hasResponse (net demoEnv k q)) \<and>
        list_all (visitable ''proj'') (Walk ''proj'' mainTree) \<and>
        a = Response r \<and> Body r = Object info \<and> info ''projectID'' = Some (JString pid) \<longrightarrow>
        map fst ups = uploadsOf demoEnv ''proj'' pid 0 (Walk ''proj'' mainTree) \<and>
        fin = (if net demoEnv (length (calls emptyWorld @ pre @ ups))
                    \<lparr>httpMethod = ''POST'',
                     url = PFEApiRoute demoEnv @ ''projects/'' @ pid @ ''/remote-bind/end'',
                     body = PBindEnd \<lparr>ProjectID = pid\<rparr>\<rparr> = NoRequest then []
               else [(\<lparr>httpMethod = ''POST'',
                      url = PFEApiRoute demoEnv @ ''projects/'' @ pid @ ''/remote-bind/end'',
                      body = PBindEnd \<lparr>ProjectID = pid\<rparr>\<rparr>,
                      net demoEnv (length (calls emptyWorld @ pre @ ups))
                        \<lparr>httpMethod = ''POST'',
                         url = PFEApiRoute demoEnv @ ''projects/'' @ pid @ ''/remote-bind/end'',
                         body = PBindEnd \<lparr>ProjectID = pid\<rparr>\<rparr>)])"
    by blast
  from a have a': "a = Response okResponse" by simp
  from live [rule_format, of okResponse "[''projectID'' \<mapsto> JString ''p1'']" "''p1''"] A V a'
  have u: "map fst ups = uploadsOf demoEnv ''proj'' ''p1'' 0 (Walk ''proj'' mainTree)"
    and f: "fin = [(?end, Response okResponse)]"
    by simp_all
  have "map fst (calls (snd ?R)) = start # uploadsOf demoEnv ''proj'' ''p1'' 0 (Walk ''proj'' mainTree)
          @ [?end]"
    unfolding c p a' f using u by (simp add: emptyWorld_def)
  then have "map fst (calls (snd ?R))
     = [\<lparr>httpMethod = ''POST'',
         url = ''http://localhost:9090/api/v1/projects/remote-bind/start'',
         body = PBind \<lparr>Language = ''go'', ProjectType = ''docker'', Name = ''demo'',
                       Path = ''proj''\<rparr>\<rparr>,
        \<lparr>httpMethod = ''PUT'',
         url = ''http://localhost:9090/api/v1/projects/p1/remote-bind/upload'',
         body = PFile \<lparr>IsDirectory = False, RelativePath = ''main.txt'',
                       Message = encode storedDeflate ''hello''\<rparr>\<rparr>,
        \<lparr>httpMethod = ''POST'',
         url = ''http://localhost:9090/api/v1/projects/p1/remote-bind/end'',
         body = PBindEnd \<lparr>ProjectID = ''p1''\<rparr>\<rparr>]"
    unfolding b
    by (simp add: uploadsOf_def mainWalk visit_eval uploadOf_def uploadUrl_def demoEnv_def)
  with r show ?thesis by (intro conjI)
qed







text \<open>
  C8 as stated fails.  The symbolic link \<^verbatim>\<open>latest\<close>, which is no regular file and
  names a directory, is listed among the files (and taken for modified).
\<close>

theorem symbolic_link_is_listed:
  "fst (syncFiles demoEnv linkTree ''proj'' ''p1'' 0 emptyWorld)
     = Returned ([''README'', ''latest'', ''src/main.go''], [''README'', ''latest'', ''src/main.go'']) \<and>
   reachableFiles (\<lambda>k. k = Regular) linkTree = [''README'', ''src/main.go'']"
proof (rule conjI)
  show "fst (syncFiles demoEnv linkTree ''proj'' ''p1'' 0 emptyWorld)
     = Returned ([''README'', ''latest'', ''src/main.go''], [''README'', ''latest'', ''src/main.go''])"
    by (simp add: run_eval linkWalk)
  show "reachableFiles (\<lambda>k. k = Regular) linkTree = [''README'', ''src/main.go'']"
    by (simp add: linkTree_def)
qed

text \<open>
  C8, amended.  When the project path is clean and the names of the tree are those
  of directory listings, a run that returns lists exactly the entries of the tree
  that are not directories, whatever their kind, each once and by its path relative
  to the root, in the order of the walk; directories are traversed and not listed.
\<close>

theorem walk_lists_every_non_directory:
  assumes "syncFiles E root pp pid t w = (Returned (files, modfiles), w')"
    and "cleanRoot pp" and "validNames root"
  shows "files = reachableFiles (\<lambda>k. True) root"
proof -
  from syncFiles_Returned [OF assms(1)] obtain s where
    s: "syncWalk E root pp pid t w = (None, s)" "files = fileList s" by blast
  from s(1) have "fileList s = map (relPath pp) (filter isFile (Walk pp root))"
    by (cases rule: syncWalk_calls) auto
  with s(2) relPaths_of_walk [OF assms(2,3)] show ?thesis by simp
qed

theorem walk_lists_every_non_directory_witness:
  "syncFiles demoEnv demoTree ''proj'' ''p1'' 200 emptyWorld =
     (Returned ([''a'', ''b/c'', ''b/d''], [''b/d'']),
      snd (syncFiles demoEnv demoTree ''proj'' ''p1'' 200 emptyWorld)) \<and>
   cleanRoot ''proj'' \<and> validNames demoTree \<and>
   [''a'', ''b/c'', ''b/d''] = reachableFiles (\<lambda>k. True) demoTree"
proof -
  have "fst (syncFiles demoEnv demoTree ''proj'' ''p1'' 200 emptyWorld)
          = Returned ([''a'', ''b/c'', ''b/d''], [''b/d''])"
    by (simp add: syncFiles_def demoSync)
  then have h: "syncFiles demoEnv demoTree ''proj'' ''p1'' 200 emptyWorld =
     (Returned ([''a'', ''b/c'', ''b/d''], [''b/d'']),
      snd (syncFiles demoEnv demoTree ''proj'' ''p1'' 200 emptyWorld))"
    by (metis prod.collapse)
  have v: "validNames demoTree" by (simp add: demoTree_def validName_def)
  from walk_lists_every_non_directory [OF h cleanRoot_proj v] h cleanRoot_proj v show ?thesis by blast
qed

end
